theory Spec2Isabelle
  imports Complex_Main "HOL-Library.AList"
begin

section \<open>The OPF plotting module \<open>gurobi_optimods/opf/graphics.py\<close>\<close>

text \<open>
  The module lays out the buses of a power network (with Graphviz \<open>sfdp\<close>, or on a
  circle when the tool is missing), and restyles the plotly figure its collaborators
  build. This theory embeds its functions as HOL functions and proves what the
  specification says about them.

  Conventions of the embedding:
  \<^item> a Python exception is a value \<open>Inl e\<close> of a result type \<open>py_error + 'a\<close>;
  \<^item> a Python \<open>dict\<close> is an association list in insertion order, written to with
    \<open>AList.update\<close> (an existing key keeps its place and gets the new value, a new key
    goes to the end), which is what \<open>d[k] = v\<close> does;
  \<^item> a string is a list of 8-bit characters (the text as UTF-8);
  \<^item> a float is a finite real or one of \<open>inf\<close>, \<open>-inf\<close>, \<open>nan\<close>, with exact arithmetic
    on the finite values;
  \<^item> the collaborators (\<open>converters\<close>, \<open>grbgraphical\<close>), the \<open>sfdp\<close> process and the
    builtins \<open>int\<close> and \<open>float\<close> on strings are fields of an environment record: the
    theorems hold for every environment.
\<close>

subsection \<open>Python floats\<close>

text \<open>
  A float is a finite number or one of the three special values. Finite arithmetic
  is exact in this model: rounding, and the overflow of a finite result to an
  infinity, are left out. The special values behave as in IEEE 754: every comparison
  with \<open>nan\<close> is false, \<open>inf - inf\<close> and \<open>0 * inf\<close> are \<open>nan\<close>.
\<close>

datatype pyfloat = Fin real | PInf | NInf | NaN

fun flt :: "pyfloat \<Rightarrow> pyfloat \<Rightarrow> bool" where
  "flt (Fin a) (Fin b) = (a < b)"
| "flt (Fin a) PInf = True"
| "flt NInf (Fin b) = True"
| "flt NInf PInf = True"
| "flt _ _ = False"

definition inf_of_sign :: "real \<Rightarrow> pyfloat" where
  "inf_of_sign s = (if s = 0 then NaN else if 0 < s then PInf else NInf)"

fun fmul :: "pyfloat \<Rightarrow> pyfloat \<Rightarrow> pyfloat" where
  "fmul NaN b = NaN"
| "fmul a NaN = NaN"
| "fmul (Fin a) (Fin b) = Fin (a * b)"
| "fmul (Fin a) PInf = inf_of_sign a"
| "fmul (Fin a) NInf = inf_of_sign (- a)"
| "fmul PInf (Fin b) = inf_of_sign b"
| "fmul NInf (Fin b) = inf_of_sign (- b)"
| "fmul PInf PInf = PInf"
| "fmul PInf NInf = NInf"
| "fmul NInf PInf = NInf"
| "fmul NInf NInf = PInf"

fun fsub :: "pyfloat \<Rightarrow> pyfloat \<Rightarrow> pyfloat" where
  "fsub NaN b = NaN"
| "fsub a NaN = NaN"
| "fsub (Fin a) (Fin b) = Fin (a - b)"
| "fsub (Fin a) PInf = NInf"
| "fsub (Fin a) NInf = PInf"
| "fsub PInf (Fin b) = PInf"
| "fsub NInf (Fin b) = NInf"
| "fsub PInf PInf = NaN"
| "fsub NInf NInf = NaN"
| "fsub PInf NInf = PInf"
| "fsub NInf PInf = NInf"

fun is_fin :: "pyfloat \<Rightarrow> bool" where
  "is_fin (Fin r) = True"
| "is_fin _ = False"

text \<open>
  The builtins \<open>min(a, b)\<close> and \<open>max(a, b)\<close> keep their first argument unless the
  second is strictly smaller (greater): with a \<open>nan\<close> the order of the arguments
  decides the result.
\<close>

definition py_min :: "pyfloat \<Rightarrow> pyfloat \<Rightarrow> pyfloat" where
  "py_min a b = (if flt b a then b else a)"

definition py_max :: "pyfloat \<Rightarrow> pyfloat \<Rightarrow> pyfloat" where
  "py_max a b = (if flt a b then b else a)"

subsection \<open>Exceptions and dynamically typed values\<close>

datatype py_error =
    FileNotFoundError
  | CalledProcessError
  | ValueError
  | KeyError
  | TypeError
  | OverflowError
  | ZeroDivisionError
  | OtherError string

text \<open>\<open>min(iterable)\<close>: \<open>ValueError\<close> on an empty iterable, else a scan from the left.\<close>

fun py_min_list :: "pyfloat list \<Rightarrow> py_error + pyfloat" where
  "py_min_list [] = Inl ValueError"
| "py_min_list (v # vs) = Inr (fold (\<lambda>item cur. py_min cur item) vs v)"

text \<open>
  The values a style attribute of a trace, or an annotation's text, can hold. A value
  of any other type than the first seven (a \<open>Fraction\<close>, a \<open>Decimal\<close>, a numpy array,
  an object with a \<open>__float__\<close> method) is \<open>PObj r\<close>, where \<open>r\<close> is what \<open>float\<close> does
  on it: the float it returns or the exception it raises. Such a value is no \<open>str\<close>,
  \<open>list\<close> or \<open>tuple\<close>.
\<close>

datatype pyval =
    PNone
  | PBool bool
  | PInt int
  | PFloat pyfloat
  | PStr string
  | PList "pyval list"
  | PTuple "pyval list"
  | PObj "py_error + pyfloat"

text \<open>
  \<open>float(v)\<close>. An \<open>int\<close> (a \<open>bool\<close> is one) converts unless it is too large for a
  double, which is \<open>OverflowError\<close>; a string is read by the environment's reader,
  \<open>ValueError\<close> when it is no float literal; \<open>None\<close>, lists and tuples are
  \<open>TypeError\<close>; a value of another type does what it does.
\<close>

definition double_overflows :: "int \<Rightarrow> bool" where
  "double_overflows n = (2 ^ 1024 - 2 ^ 970 \<le> \<bar>n\<bar>)"

fun py_float :: "(string \<Rightarrow> pyfloat option) \<Rightarrow> pyval \<Rightarrow> py_error + pyfloat" where
  "py_float rd (PFloat f) = Inr f"
| "py_float rd (PInt n) = (if double_overflows n then Inl OverflowError else Inr (Fin (of_int n)))"
| "py_float rd (PBool b) = Inr (Fin (if b then 1 else 0))"
| "py_float rd (PStr s) = (case rd s of None \<Rightarrow> Inl ValueError | Some f \<Rightarrow> Inr f)"
| "py_float rd PNone = Inl TypeError"
| "py_float rd (PList vs) = Inl TypeError"
| "py_float rd (PTuple vs) = Inl TypeError"
| "py_float rd (PObj r) = r"

text \<open>\<open>a / b\<close> for a float \<open>a\<close> and an int \<open>b\<close>.\<close>

definition truediv :: "real \<Rightarrow> int \<Rightarrow> py_error + real" where
  "truediv a b = (if b = 0 then Inl ZeroDivisionError else Inr (a / of_int b))"

subsection \<open>Strings\<close>

text \<open>
  The ASCII characters for which \<open>str.isspace\<close> holds. Whitespace and line
  boundaries outside ASCII (such as U+00A0 or U+2028) are not modelled: the strings
  of this module, the tool's plain output and the annotation texts, are ASCII there.
\<close>

definition is_space :: "char \<Rightarrow> bool" where
  "is_space c = (c \<in> set [CHR 0x09, CHR 0x0A, CHR 0x0B, CHR 0x0C, CHR 0x0D,
                          CHR 0x1C, CHR 0x1D, CHR 0x1E, CHR 0x1F, CHR 0x20])"

text \<open>The ASCII line boundaries of \<open>str.splitlines\<close> (\<open>\r\n\<close> counts as one).\<close>

definition is_linebreak :: "char \<Rightarrow> bool" where
  "is_linebreak c = (c \<in> set [CHR 0x0A, CHR 0x0B, CHR 0x0C, CHR 0x0D,
                              CHR 0x1C, CHR 0x1D, CHR 0x1E])"

fun splitlines_acc :: "string \<Rightarrow> string \<Rightarrow> string list" where
  "splitlines_acc acc [] = (if acc = [] then [] else [rev acc])"
| "splitlines_acc acc [c] = (if is_linebreak c then [rev acc] else [rev (c # acc)])"
| "splitlines_acc acc (c # d # cs) =
     (if c = CHR 0x0D \<and> d = CHR 0x0A then rev acc # splitlines_acc [] cs
      else if is_linebreak c then rev acc # splitlines_acc [] (d # cs)
      else splitlines_acc (c # acc) (d # cs))"

definition splitlines :: "string \<Rightarrow> string list" where
  "splitlines s = splitlines_acc [] s"

text \<open>\<open>s.split()\<close>: the maximal runs of non-blank characters.\<close>

fun split_acc :: "string \<Rightarrow> string \<Rightarrow> string list" where
  "split_acc acc [] = (if acc = [] then [] else [rev acc])"
| "split_acc acc (c # cs) =
     (if is_space c then (if acc = [] then split_acc [] cs else rev acc # split_acc [] cs)
      else split_acc (c # acc) cs)"

definition py_split :: "string \<Rightarrow> string list" where
  "py_split s = split_acc [] s"

definition py_strip :: "string \<Rightarrow> string" where
  "py_strip s = rev (dropWhile is_space (rev (dropWhile is_space s)))"

definition startswith :: "string \<Rightarrow> string \<Rightarrow> bool" where
  "startswith s p = (take (length p) s = p)"

text \<open>\<open>sub in s\<close> for two strings.\<close>

fun contains :: "string \<Rightarrow> string \<Rightarrow> bool" where
  "contains sub [] = (sub = [])"
| "contains sub (c # cs) = (take (length sub) (c # cs) = sub \<or> contains sub cs)"

text \<open>\<open>sep.join(lines)\<close>.\<close>

fun join :: "string \<Rightarrow> string list \<Rightarrow> string" where
  "join sep [] = []"
| "join sep [s] = s"
| "join sep (s # t # ss) = s @ sep @ join sep (t # ss)"

subsection \<open>The data model\<close>

text \<open>
  \<open>alldata\<close>, as far as this module reads and writes it: the dict from bus identifier
  to bus count, the number of buses, the branches (each with its two bus counts
  \<open>count_f\<close> and \<open>count_t\<close>, in the order of \<open>alldata["branches"].values()\<close>), and the
  \<open>graphical\<close> settings the plot functions add.
\<close>

record alldata =
  IDtoCountmap :: "(int \<times> int) list"
  numbuses :: int
  branches :: "(int \<times> int) list"
  graphical :: "(string \<times> int) list option"

text \<open>A coordinate map \<open>{bus_i: (lat, lon)}\<close>.\<close>

type_synonym coords = "(int \<times> (pyfloat \<times> pyfloat)) list"

text \<open>
  What writing the graph description to a temporary file and running
  \<open>sfdp -Tplain -Gseed=1234\<close> on it comes to (lines 141 to 148): an exception
  (\<open>FileNotFoundError\<close> when the tool is not installed, \<open>CalledProcessError\<close> when it
  exits non-zero, or any other), or the tool's standard output.
\<close>

datatype tool_outcome = Raises py_error | Stdout string

text \<open>
  A trace of the figure. \<open>mode\<close> is \<open>None\<close> when the trace has no \<open>mode\<close> attribute or
  it is unset, and a string otherwise (plotly accepts nothing else there);
  \<open>line_width\<close> is \<open>None\<close> when \<open>hasattr(tr, "line")\<close> or
  \<open>hasattr(tr.line, "width")\<close> fails, and otherwise holds the attribute's value
  (\<open>PNone\<close> when plotly has it unset); \<open>marker_size\<close> likewise.
\<close>

record trace =
  mode :: "string option"
  line_width :: "pyval option"
  marker_size :: "pyval option"

record annotation =
  atext :: pyval
  xref :: string
  yref :: string
  xpos :: real
  ypos :: real
  xanchor :: string
  yanchor :: string
  showarrow :: bool
  align :: string
  bgcolor :: string
  bordercolor :: string
  borderwidth :: int
  borderpad :: int
  font_size :: int
  font_color :: string

record figure =
  traces :: "trace list"
  annotations :: "annotation list"

text \<open>
  The environment of a call: the builtins \<open>int(s)\<close> and \<open>float(s)\<close> on a string
  (\<open>None\<close> for \<open>ValueError\<close>), the collaborators' functions, and the external tool
  as a function of the graph description it is given.
\<close>

record ('c, 'v) env =
  int_of_str :: "string \<Rightarrow> int option"
  float_of_str :: "string \<Rightarrow> pyfloat option"
  convert_case_to_internal_format :: "'c \<Rightarrow> py_error + alldata"
  run_sfdp :: "string \<Rightarrow> tool_outcome"
  grbmap_coords_from_dict :: "alldata \<Rightarrow> coords \<Rightarrow> py_error + alldata"
  generate_violations_figure :: "alldata \<Rightarrow> 'v \<Rightarrow> py_error + figure"

subsection \<open>The layout engine\<close>

text \<open>
  \<open>_coords_circle\<close> (lines 169 to 181). The loop runs over \<open>enumerate(bus_ids)\<close>; the
  angle is \<open>2 * math.pi * k / max(1, n)\<close>, and the entry written is \<open>(y, x)\<close>.
\<close>

definition R_circle :: real where
  "R_circle = 100"

fun circle_loop :: "nat \<Rightarrow> (nat \<times> int) list \<Rightarrow> coords \<Rightarrow> py_error + coords" where
  "circle_loop n [] coords = Inr coords"
| "circle_loop n ((k, bus) # rest) coords =
     (case truediv (2 * pi * real k) (max 1 (int n)) of
        Inl e \<Rightarrow> Inl e
      | Inr theta \<Rightarrow>
          (let x = R_circle * cos theta;
               y = R_circle * sin theta
           in circle_loop n rest (AList.update bus (Fin y, Fin x) coords)))"

definition coords_circle :: "('c, 'v) env \<Rightarrow> 'c \<Rightarrow> py_error + coords" where
  "coords_circle env c =
     (case convert_case_to_internal_format env c of
        Inl e \<Rightarrow> Inl e
      | Inr alldata \<Rightarrow>
          (let bus_ids = sort (map fst (IDtoCountmap alldata));
               n = length bus_ids
           in circle_loop n (enumerate 0 bus_ids) []))"

text \<open>\<open>str(n)\<close> for an \<open>int\<close>, as an f-string formats it.\<close>

fun digits :: "nat \<Rightarrow> string" where
  "digits n = (if n < 10 then [char_of (48 + n)] else digits (n div 10) @ [char_of (48 + n mod 10)])"

definition str_int :: "int \<Rightarrow> string" where
  "str_int n = (if n < 0 then CHR ''-'' # digits (nat (- n)) else digits (nat n))"

text \<open>
  The graph description (lines 134 to 139): a node statement for every count from 1
  to \<open>numbuses\<close>, an edge statement for every branch; the file written is the lines
  joined by newlines.
\<close>

definition graph_lines :: "alldata \<Rightarrow> string list" where
  \<open>graph_lines alldata =
     [''graph G {'', ''node [shape=point, height=0, width=0, label=""];'']
     @ map (\<lambda>j. ''  '' @ str_int j @ '';'') [1..numbuses alldata]
     @ map (\<lambda>(count_f, count_t). ''  '' @ str_int count_f @ '' -- '' @ str_int count_t @ '';'')
         (branches alldata)
     @ [''}'']\<close>

definition graph_text :: "alldata \<Rightarrow> string" where
  "graph_text alldata = join [CHR 0x0A] (graph_lines alldata)"

text \<open>
  \<open>_coords_from_sfdp\<close> (lines 128 to 166). \<open>CountToID\<close> is the dict comprehension
  \<open>{v: k for k, v in IDtoCount.items()}\<close>.
\<close>

definition CountToID_of :: "(int \<times> int) list \<Rightarrow> (int \<times> int) list" where
  "CountToID_of items = fold (\<lambda>(k, v) d. AList.update v k d) items []"

text \<open>The test \<open>len(parts) >= 4 and parts[0] == "node"\<close>.\<close>

definition is_node_line :: "string list \<Rightarrow> bool" where
  "is_node_line parts = (4 \<le> length parts \<and> parts ! 0 = ''node'')"

text \<open>The body of the loop over the output's lines (lines 152 to 156).\<close>

definition node_step ::
  "('c, 'v) env \<Rightarrow> string \<Rightarrow> (int \<times> pyfloat) list \<times> (int \<times> pyfloat) list
     \<Rightarrow> py_error + ((int \<times> pyfloat) list \<times> (int \<times> pyfloat) list)" where
  "node_step env row xy =
     (let parts = py_split row in
      if is_node_line parts then
        (case int_of_str env (parts ! 1) of
           None \<Rightarrow> Inl ValueError
         | Some name \<Rightarrow>
             (case float_of_str env (parts ! 2) of
                None \<Rightarrow> Inl ValueError
              | Some X \<Rightarrow>
                  (case float_of_str env (parts ! 3) of
                     None \<Rightarrow> Inl ValueError
                   | Some Y \<Rightarrow> Inr (AList.update name X (fst xy), AList.update name Y (snd xy)))))
      else Inr xy)"

fun node_loop ::
  "('c, 'v) env \<Rightarrow> string list \<Rightarrow> (int \<times> pyfloat) list \<times> (int \<times> pyfloat) list
     \<Rightarrow> py_error + ((int \<times> pyfloat) list \<times> (int \<times> pyfloat) list)" where
  "node_loop env [] xy = Inr xy"
| "node_loop env (row # rows) xy =
     (case node_step env row xy of
        Inl e \<Rightarrow> Inl e
      | Inr xy' \<Rightarrow> node_loop env rows xy')"

text \<open>
  The loop over \<open>x.items()\<close> (lines 160 to 165): \<open>y[cnt]\<close> and \<open>CountToID[cnt]\<close> raise
  \<open>KeyError\<close> on a missing key; the entry written is \<open>(Yn, Xn)\<close>.
\<close>

fun shift_loop ::
  "pyfloat \<Rightarrow> pyfloat \<Rightarrow> (int \<times> int) list \<Rightarrow> (int \<times> pyfloat) list
     \<Rightarrow> (int \<times> pyfloat) list \<Rightarrow> coords \<Rightarrow> py_error + coords" where
  "shift_loop minx miny CountToID y [] coords = Inr coords"
| "shift_loop minx miny CountToID y ((cnt, X) # items) coords =
     (case map_of y cnt of
        None \<Rightarrow> Inl KeyError
      | Some Y \<Rightarrow>
          (let Xn = fsub X minx;
               Yn = fsub Y miny
           in case map_of CountToID cnt of
                None \<Rightarrow> Inl KeyError
              | Some bus_i \<Rightarrow>
                  shift_loop minx miny CountToID y items (AList.update bus_i (Yn, Xn) coords)))"

definition coords_from_sfdp :: "('c, 'v) env \<Rightarrow> 'c \<Rightarrow> py_error + coords" where
  "coords_from_sfdp env c =
     (case convert_case_to_internal_format env c of
        Inl e \<Rightarrow> Inl e
      | Inr alldata \<Rightarrow>
          (let CountToID = CountToID_of (IDtoCountmap alldata) in
           case run_sfdp env (graph_text alldata) of
             Raises e \<Rightarrow> Inl e
           | Stdout out \<Rightarrow>
               (case node_loop env (splitlines out) ([], []) of
                  Inl e \<Rightarrow> Inl e
                | Inr (x, y) \<Rightarrow>
                    (case py_min_list (map snd x) of
                       Inl e \<Rightarrow> Inl e
                     | Inr minx \<Rightarrow>
                         (case py_min_list (map snd y) of
                            Inl e \<Rightarrow> Inl e
                          | Inr miny \<Rightarrow> shift_loop minx miny CountToID y x [])))))"

text \<open>
  \<open>_get_coords\<close> (lines 184 to 190): the \<open>except\<close> clause names two exceptions; any
  other leaves the function.
\<close>

definition get_coords :: "('c, 'v) env \<Rightarrow> 'c \<Rightarrow> coords option \<Rightarrow> py_error + coords" where
  "get_coords env c coords =
     (case coords of
        Some given \<Rightarrow> Inr given
      | None \<Rightarrow>
          (case coords_from_sfdp env c of
             Inr r \<Rightarrow> Inr r
           | Inl e \<Rightarrow>
               (if e = FileNotFoundError \<or> e = CalledProcessError then coords_circle env c
                else Inl e)))"

subsection \<open>The figure post-processor\<close>

text \<open>
  The scan of \<open>solution_plot\<close> for the objective annotation (lines 65 to 69): the first
  annotation whose text is a string that, stripped, starts with \<open>OBJ\<close>; the text
  taken is the stripped one.
\<close>

fun obj_scan :: "annotation list \<Rightarrow> string option" where
  "obj_scan [] = None"
| "obj_scan (a # rest) =
     (case atext a of
        PStr s \<Rightarrow> (if startswith (py_strip s) ''OBJ'' then Some (py_strip s) else obj_scan rest)
      | _ \<Rightarrow> obj_scan rest)"

text \<open>
  The fixed legend of \<open>_restyle_annotations\<close> (lines 203 to 212). The two signs
  \<open>\<le>\<close> and \<open>\<ge>\<close> of the source are written as their UTF-8 bytes.
\<close>

definition legend_lines :: "string list" where
  \<open>legend_lines =
     [''No lines turned off'',
      [],
      ''<b>Bus colors</b>'',
      ''Black: generation '' @ [CHR 0xE2, CHR 0x89, CHR 0xA4] @ '' 75 & load < 50'',
      ''<span style="color:#1f77b4">Blue</span>: generation '' @ [CHR 0xE2, CHR 0x89, CHR 0xA4]
         @ '' 75 & load '' @ [CHR 0xE2, CHR 0x89, CHR 0xA5] @ '' 50'',
      ''<span style="color:#9467bd">Purple</span>: generation > 75'',
      ''<span style="color:#ff7f0e">Orange</span>: generation > 150'',
      ''<span style="color:#d62728">Red</span>: generation > 500'']\<close>

text \<open>The annotation \<open>fig.add_annotation\<close> is given (lines 215 to 222).\<close>

definition new_annotation :: "string \<Rightarrow> annotation" where
  "new_annotation txt =
     \<lparr> atext = PStr txt, xref = ''paper'', yref = ''paper'', xpos = 0.02, ypos = 0.98,
       xanchor = ''left'', yanchor = ''top'', showarrow = False, align = ''left'',
       bgcolor = ''rgba(255,255,255,0.90)'', bordercolor = ''rgba(0,0,0,0.15)'',
       borderwidth = 1, borderpad = 6, font_size = 16, font_color = ''black'' \<rparr>"

text \<open>
  \<open>_restyle_annotations\<close> (lines 194 to 222). \<open>if obj_text:\<close> is false for \<open>None\<close> and
  for the empty string.
\<close>

definition restyle_lines :: "string option \<Rightarrow> string list" where
  "restyle_lines obj_text =
     (case obj_text of
        None \<Rightarrow> []
      | Some t \<Rightarrow> (if t = [] then [] else [''<b>'' @ t @ ''</b>'', []]))
     @ legend_lines"

definition restyle_annotations :: "figure \<Rightarrow> string option \<Rightarrow> figure" where
  "restyle_annotations fig obj_text =
     fig\<lparr>annotations := [] @ [new_annotation (join ''<br>'' (restyle_lines obj_text))]\<rparr>"

text \<open>
  Lines 64 to 70 of \<open>solution_plot\<close>: the scan, then
  \<open>_restyle_annotations(fig, obj_text if keep_obj else None)\<close>.
\<close>

definition restyle_objective :: "figure \<Rightarrow> bool \<Rightarrow> figure" where
  "restyle_objective fig keep_obj =
     (let obj_text = obj_scan (annotations fig)
      in restyle_annotations fig (if keep_obj then obj_text else None))"

text \<open>
  \<open>_tune_traces\<close> (lines 225 to 252). The width is read under \<open>except Exception\<close>,
  the size under \<open>except (TypeError, ValueError)\<close>.
\<close>

definition trace_mode :: "trace \<Rightarrow> string" where
  "trace_mode tr = (case mode tr of None \<Rightarrow> [] | Some m \<Rightarrow> m)"

definition tune_line :: "(string \<Rightarrow> pyfloat option) \<Rightarrow> trace \<Rightarrow> trace" where
  "tune_line rd tr =
     (case line_width tr of
        None \<Rightarrow> tr
      | Some w \<Rightarrow>
          (if contains ''lines'' (trace_mode tr) then
             (let oldw = (case py_float rd w of Inl e \<Rightarrow> Fin 1.0 | Inr f \<Rightarrow> f)
              in tr\<lparr>line_width :=
                      Some (PFloat (py_min (py_max (Fin 0.8) (fmul oldw (Fin 1.08))) (Fin 2.2)))\<rparr>)
           else tr))"

definition bump :: "(string \<Rightarrow> pyfloat option) \<Rightarrow> pyval \<Rightarrow> py_error + pyfloat" where
  "bump rd v =
     (case (case py_float rd v of
              Inr f \<Rightarrow> Inr f
            | Inl e \<Rightarrow> (if e = TypeError \<or> e = ValueError then Inr (Fin 6.0) else Inl e)) of
        Inl e \<Rightarrow> Inl e
      | Inr fv \<Rightarrow> Inr (py_min (py_max (Fin 6.0) (fmul fv (Fin 1.12))) (Fin 18.0)))"

text \<open>The comprehension \<open>[bump(v) for v in s]\<close>: the first exception ends it.\<close>

fun bump_all :: "(string \<Rightarrow> pyfloat option) \<Rightarrow> pyval list \<Rightarrow> py_error + pyval list" where
  "bump_all rd [] = Inr []"
| "bump_all rd (v # vs) =
     (case bump rd v of
        Inl e \<Rightarrow> Inl e
      | Inr f \<Rightarrow> (case bump_all rd vs of Inl e \<Rightarrow> Inl e | Inr fs \<Rightarrow> Inr (PFloat f # fs)))"

definition bump_size :: "(string \<Rightarrow> pyfloat option) \<Rightarrow> pyval \<Rightarrow> py_error + pyval" where
  "bump_size rd s =
     (case s of
        PList vs \<Rightarrow> (case bump_all rd vs of Inl e \<Rightarrow> Inl e | Inr fs \<Rightarrow> Inr (PList fs))
      | PTuple vs \<Rightarrow> (case bump_all rd vs of Inl e \<Rightarrow> Inl e | Inr fs \<Rightarrow> Inr (PList fs))
      | _ \<Rightarrow> (case bump rd s of Inl e \<Rightarrow> Inl e | Inr f \<Rightarrow> Inr (PFloat f)))"

definition tune_marker :: "(string \<Rightarrow> pyfloat option) \<Rightarrow> trace \<Rightarrow> py_error + trace" where
  "tune_marker rd tr =
     (case marker_size tr of
        None \<Rightarrow> Inr tr
      | Some s \<Rightarrow>
          (if contains ''markers'' (trace_mode tr) then
             (case bump_size rd s of
                Inl e \<Rightarrow> Inl e
              | Inr s' \<Rightarrow> Inr (tr\<lparr>marker_size := Some s'\<rparr>))
           else Inr tr))"

definition tune_trace :: "(string \<Rightarrow> pyfloat option) \<Rightarrow> trace \<Rightarrow> py_error + trace" where
  "tune_trace rd tr = tune_marker rd (tune_line rd tr)"

fun tune_loop :: "(string \<Rightarrow> pyfloat option) \<Rightarrow> trace list \<Rightarrow> py_error + trace list" where
  "tune_loop rd [] = Inr []"
| "tune_loop rd (tr # trs) =
     (case tune_trace rd tr of
        Inl e \<Rightarrow> Inl e
      | Inr tr' \<Rightarrow> (case tune_loop rd trs of Inl e \<Rightarrow> Inl e | Inr trs' \<Rightarrow> Inr (tr' # trs')))"

definition tune_traces :: "(string \<Rightarrow> pyfloat option) \<Rightarrow> figure \<Rightarrow> py_error + figure" where
  "tune_traces rd fig =
     (case tune_loop rd (traces fig) of
        Inl e \<Rightarrow> Inl e
      | Inr trs \<Rightarrow> Inr (fig\<lparr>traces := trs\<rparr>))"

subsection \<open>The orchestrators\<close>

text \<open>\<open>violation_plot\<close> (lines 85 to 122).\<close>

definition violation_plot :: "('c, 'v) env \<Rightarrow> 'c \<Rightarrow> coords \<Rightarrow> 'v \<Rightarrow> py_error + figure" where
  "violation_plot env c coords violations =
     (case convert_case_to_internal_format env c of
        Inl e \<Rightarrow> Inl e
      | Inr alldata \<Rightarrow>
          (let alldata = alldata\<lparr>graphical := Some []\<rparr>;
               alldata = alldata\<lparr>graphical := Some (AList.update ''numfeatures'' 0 [])\<rparr>
           in case grbmap_coords_from_dict env alldata coords of
                Inl e \<Rightarrow> Inl e
              | Inr alldata' \<Rightarrow> generate_violations_figure env alldata' violations))"

text \<open>
  The parameter list of \<open>solution_plot\<close> as its \<open>def\<close> statement writes it (lines 15 to
  22): each name with its default value, when it has one.
\<close>

definition solution_plot_params :: "(string \<times> pyval option) list" where
  "solution_plot_params =
     [(''case'', None), (''coords'', Some PNone), (''solution'', None),
      (''width'', Some (PInt 1200)), (''height'', Some (PInt 900)),
      (''keep_obj'', Some (PBool True))]"

text \<open>
  Python compiles a \<open>def\<close> statement only if no parameter without a default follows
  one with a default; otherwise the module is refused with \<open>SyntaxError\<close>.
\<close>

fun defaults_last :: "(string \<times> pyval option) list \<Rightarrow> bool" where
  "defaults_last [] = True"
| "defaults_last ((name, None) # ps) = defaults_last ps"
| "defaults_last ((name, Some d) # ps) = list_all (\<lambda>p. snd p \<noteq> None) ps"

subsection \<open>Predicates of the specification\<close>

text \<open>
  A line of the tool's output that the loop of \<open>_coords_from_sfdp\<close> reads as
  \<open>node <id> <x> <y> ...\<close>: at least four fields, the first \<open>node\<close>, and \<open>int\<close> and
  \<open>float\<close> accept the next three.
\<close>

definition parseable_node_line :: "('c, 'v) env \<Rightarrow> string \<Rightarrow> bool" where
  "parseable_node_line env row =
     (let parts = py_split row in
      is_node_line parts \<and> int_of_str env (parts ! 1) \<noteq> None
      \<and> float_of_str env (parts ! 2) \<noteq> None \<and> float_of_str env (parts ! 3) \<noteq> None)"

text \<open>The entry of the bus with rank \<open>k\<close> among \<open>n\<close> buses on the circle of radius 100.\<close>

definition circle_entry :: "nat \<Rightarrow> nat \<Rightarrow> int \<Rightarrow> int \<times> (pyfloat \<times> pyfloat)" where
  "circle_entry n k bus =
     (bus, (Fin (100 * sin (2 * pi * real k / real n)), Fin (100 * cos (2 * pi * real k / real n))))"

text \<open>
  The test of the scan for the objective annotation, and the text the scan takes from
  an annotation that passes it.
\<close>

definition is_objective :: "annotation \<Rightarrow> bool" where
  "is_objective a = (case atext a of PStr s \<Rightarrow> startswith (py_strip s) ''OBJ'' | _ \<Rightarrow> False)"

definition objective_text :: "annotation \<Rightarrow> string" where
  "objective_text a = (case atext a of PStr s \<Rightarrow> py_strip s | _ \<Rightarrow> [])"

text \<open>
  The text of the new annotation when the objective text \<open>t\<close> is kept: the bolded
  line, an empty line, the legend, joined by \<open><br>\<close>.
\<close>

definition objective_block :: "string \<Rightarrow> string" where
  "objective_block t = ''<b>'' @ t @ ''</b>'' @ ''<br>'' @ ''<br>'' @ join ''<br>'' legend_lines"







text \<open>
  The entry \<open>_coords_from_sfdp\<close> writes for an item \<open>(cnt, X)\<close> of \<open>x\<close>: the key is
  \<open>CountToID[cnt]\<close>, the value \<open>(y[cnt] - miny, X - minx)\<close>.
\<close>

definition shifted ::
  "pyfloat \<Rightarrow> pyfloat \<Rightarrow> (int \<times> int) list \<Rightarrow> (int \<times> pyfloat) list \<Rightarrow> int \<times> pyfloat
     \<Rightarrow> int \<times> (pyfloat \<times> pyfloat)" where
  "shifted minx miny C y item =
     (the (map_of C (fst item)), (fsub (the (map_of y (fst item))) miny, fsub (snd item) minx))"

subsection \<open>Example inputs\<close>

text \<open>
  The values of \<open>int\<close> and \<open>float\<close> on the strings of the examples below. The tables
  stand for the builtins on these strings only (they answer \<open>None\<close> on every other
  string); the general theorems do not use them.
\<close>

definition int_table :: "string \<Rightarrow> int option" where
  "int_table = map_of [(''1'', 1), (''2'', 2), (''3'', 3)]"

definition float_table :: "string \<Rightarrow> pyfloat option" where
  "float_table = map_of [(''0'', Fin 0), (''1'', Fin 1), (''2'', Fin 2), (''3'', Fin 3),
                         (''inf'', PInf), (''nan'', NaN)]"

definition empty_figure :: figure where
  "empty_figure = \<lparr>traces = [], annotations = []\<rparr>"

text \<open>
  An environment whose converter returns the network \<open>a\<close>, whose tool run comes to
  \<open>t\<close>, and whose other collaborators succeed.
\<close>

definition demo_env :: "alldata \<Rightarrow> tool_outcome \<Rightarrow> (unit, unit) env" where
  "demo_env a t =
     \<lparr> int_of_str = int_table, float_of_str = float_table,
       convert_case_to_internal_format = (\<lambda>c. Inr a),
       run_sfdp = (\<lambda>g. t),
       grbmap_coords_from_dict = (\<lambda>a coords. Inr a),
       generate_violations_figure = (\<lambda>a v. Inr empty_figure) \<rparr>"

text \<open>The three-bus triangle of the specification, and a network without buses.\<close>

definition triangle :: alldata where
  "triangle = \<lparr> IDtoCountmap = [(1, 1), (2, 2), (3, 3)], numbuses = 3,
                 branches = [(1, 2), (2, 3), (1, 3)], graphical = None \<rparr>"

definition no_buses :: alldata where
  "no_buses = \<lparr> IDtoCountmap = [], numbuses = 0, branches = [], graphical = None \<rparr>"

definition lines_figure :: figure where
  "lines_figure =
     \<lparr>traces = [\<lparr>mode = Some ''lines'', line_width = Some (PFloat (Fin 5)), marker_size = None\<rparr>],
      annotations = [new_annotation ''OBJ 1'']\<rparr>"

text \<open>The output of \<open>sfdp -Tplain\<close> for a graph without nodes.\<close>

definition plain_no_nodes :: string where
  "plain_no_nodes = ''graph 1 0 0'' @ [CHR 0x0A] @ ''stop'' @ [CHR 0x0A]"

text \<open>
  A network whose bus identifiers differ from the bus counts, one with two buses and
  one with a single bus.
\<close>

definition renumbered :: alldata where
  "renumbered = \<lparr> IDtoCountmap = [(10, 1), (20, 2), (30, 3)], numbuses = 3,
                   branches = [(1, 2), (2, 3), (1, 3)], graphical = None \<rparr>"

definition two_buses :: alldata where
  "two_buses = \<lparr> IDtoCountmap = [(1, 1), (2, 2)], numbuses = 2, branches = [(1, 2)],
                  graphical = None \<rparr>"

definition single_bus :: alldata where
  "single_bus = \<lparr> IDtoCountmap = [(1, 1)], numbuses = 1, branches = [], graphical = None \<rparr>"

text \<open>
  An output of \<open>sfdp -Tplain\<close> for the triangle, and an output with an infinite
  position.
\<close>

definition plain_triangle :: string where
  "plain_triangle =
     ''graph 1 3 3'' @ [CHR 0x0A] @
     ''node 1 1 2 0 0'' @ [CHR 0x0A] @
     ''node 2 3 1 0 0'' @ [CHR 0x0A] @
     ''node 3 2 3 0 0'' @ [CHR 0x0A] @
     ''edge 1 2 4 1 2 3 1'' @ [CHR 0x0A] @
     ''stop'' @ [CHR 0x0A]"

definition plain_inf :: string where
  "plain_inf = ''node 1 inf 0'' @ [CHR 0x0A]"

text \<open>
  Figures: one with an objective annotation after another annotation, one whose
  objective text ends with a blank; one with missing, negative, non-numeric,
  list-valued and foreign style values; and a trace with mode \<open>lines\<close> and no
  \<open>line.width\<close> attribute.
\<close>

definition two_annotations :: figure where
  "two_annotations =
     \<lparr>traces = [], annotations = [new_annotation ''case9'', new_annotation ''  OBJ 12.5 '']\<rparr>"

definition trailing_blank :: figure where
  "trailing_blank = \<lparr>traces = [], annotations = [new_annotation ''OBJ 1 '']\<rparr>"



section \<open>Properties\<close>

subsection \<open>Helper facts on dicts\<close>

lemma update_fresh: "k \<notin> fst ` set al \<Longrightarrow> AList.update k v al = al @ [(k, v)]"
  by (induction al) auto

subsection \<open>The circular fallback layout\<close>

lemma circle_loop_fresh:
  assumes "0 < n" and "distinct (map snd kbs)" and "snd ` set kbs \<inter> fst ` set acc = {}"
  shows "circle_loop n kbs acc = Inr (acc @ map (\<lambda>(k, bus). circle_entry n k bus) kbs)"
  using assms
proof (induction kbs arbitrary: acc)
  case Nil
  then show ?case by simp
next
  case (Cons kb kbs)
  obtain k bus where kb: "kb = (k, bus)" by (cases kb)
  let ?e = "circle_entry n k bus"
  from Cons.prems kb have fresh: "bus \<notin> fst ` set acc" by auto
  have upd: "AList.update bus (snd ?e) acc = acc @ [?e]"
    using fresh by (simp add: update_fresh circle_entry_def)
  have div: "truediv (2 * pi * real k) (max 1 (int n)) = Inr (2 * pi * real k / real n)"
    using \<open>0 < n\<close> by (simp add: truediv_def max_def)
  have step: "circle_loop n (kb # kbs) acc = circle_loop n kbs (acc @ [?e])"
    using upd by (simp add: kb div Let_def R_circle_def circle_entry_def)
  have "snd ` set kbs \<inter> fst ` set (acc @ [?e]) = {}"
    using Cons.prems kb by (auto simp: circle_entry_def)
  with Cons.IH [of "acc @ [?e]"] Cons.prems
  have "circle_loop n kbs (acc @ [?e])
          = Inr ((acc @ [?e]) @ map (\<lambda>(k, bus). circle_entry n k bus) kbs)"
    by simp
  with step show ?case by (simp add: kb)
qed

lemma coords_circle_eq:
  assumes conv: "convert_case_to_internal_format env c = Inr a"
    and ne: "IDtoCountmap a \<noteq> []"
    and dist: "distinct (map fst (IDtoCountmap a))"
  shows "coords_circle env c =
           Inr (map (\<lambda>(k, bus). circle_entry (length (IDtoCountmap a)) k bus)
                  (enumerate 0 (sort (map fst (IDtoCountmap a)))))"
proof -
  let ?ids = "sort (map fst (IDtoCountmap a))"
  have pos: "0 < length (IDtoCountmap a)" using ne by simp
  have d: "distinct (map snd (enumerate 0 ?ids))" using dist by simp
  have "circle_loop (length (IDtoCountmap a)) (enumerate 0 ?ids) []
          = Inr ([] @ map (\<lambda>(k, bus). circle_entry (length (IDtoCountmap a)) k bus)
                        (enumerate 0 ?ids))"
    using pos d by (intro circle_loop_fresh) simp_all
  then show ?thesis
    using conv by (simp add: coords_circle_def Let_def)
qed

lemma coords_circle_nth:
  assumes conv: "convert_case_to_internal_format env c = Inr a"
    and dist: "distinct (map fst (IDtoCountmap a))"
    and res: "coords_circle env c = Inr mc"
  shows "length mc = length (IDtoCountmap a)"
    and "k < length (IDtoCountmap a) \<Longrightarrow>
           mc ! k = circle_entry (length (IDtoCountmap a)) k (sort (map fst (IDtoCountmap a)) ! k)"
proof -
  let ?n = "length (IDtoCountmap a)"
  let ?ids = "sort (map fst (IDtoCountmap a))"
  have eq: "mc = map (\<lambda>(k, bus). circle_entry ?n k bus) (enumerate 0 ?ids)"
  proof (cases "IDtoCountmap a = []")
    case True
    with conv res show ?thesis by (simp add: coords_circle_def)
  next
    case False
    from coords_circle_eq [OF conv False dist] res show ?thesis by simp
  qed
  show "length mc = ?n" by (simp add: eq)
  show "mc ! k = circle_entry ?n k (?ids ! k)" if "k < ?n"
    using that by (simp add: eq nth_enumerate_eq)
qed

text \<open>
  Claim C2. For a network with at least one bus (whose \<open>IDtoCountmap\<close>, a dict, has
  each bus identifier once), the circular fallback returns a map \<open>m\<close> whose keys are
  the bus identifiers in ascending order, each exactly once; the entry of the bus of
  rank \<open>k\<close> among \<open>n\<close> is \<open>(y, x) = (100 * sin \<theta>, 100 * cos \<theta>)\<close> with
  \<open>\<theta> = 2 * pi * k / n\<close>; and every coordinate is a finite float.
\<close>

theorem coords_circle_layout:
  assumes conv: "convert_case_to_internal_format env c = Inr a"
    and ne: "IDtoCountmap a \<noteq> []"
    and dist: "distinct (map fst (IDtoCountmap a))"
  shows "\<exists>m. coords_circle env c = Inr m
           \<and> map fst m = sort (map fst (IDtoCountmap a))
           \<and> distinct (map fst m)
           \<and> set (map fst m) = fst ` set (IDtoCountmap a)
           \<and> (\<forall>k < length (IDtoCountmap a).
                 m ! k = (sort (map fst (IDtoCountmap a)) ! k,
                          (Fin (100 * sin (2 * pi * real k / real (length (IDtoCountmap a)))),
                           Fin (100 * cos (2 * pi * real k / real (length (IDtoCountmap a)))))))
           \<and> (\<forall>(bus, (y, x)) \<in> set m. is_fin y \<and> is_fin x)"
proof -
  let ?n = "length (IDtoCountmap a)"
  let ?ids = "sort (map fst (IDtoCountmap a))"
  let ?m = "map (\<lambda>(k, bus). circle_entry ?n k bus) (enumerate 0 ?ids)"
  have eq: "coords_circle env c = Inr ?m"
    using assms by (rule coords_circle_eq)
  have keys: "map fst ?m = ?ids"
  proof -
    have "map fst ?m = map snd (enumerate 0 ?ids)"
      by (simp add: circle_entry_def case_prod_beta comp_def)
    then show ?thesis by simp
  qed
  have nth: "?m ! k = circle_entry ?n k (?ids ! k)" if "k < ?n" for k
    using that by (simp add: nth_enumerate_eq)
  have fin: "\<forall>(bus, (y, x)) \<in> set ?m. is_fin y \<and> is_fin x"
    by (auto simp: circle_entry_def)
  have "distinct ?ids" using dist by simp
  moreover have "set ?ids = fst ` set (IDtoCountmap a)" by simp
  ultimately show ?thesis
    using eq keys nth fin by (intro exI [of _ ?m]) (simp add: circle_entry_def)
qed

text \<open>
  The example of the specification: the three-bus triangle, the tool not installed.
  The buses 1, 2, 3 get the angles 0, 120 and 240 degrees.
\<close>

theorem coords_circle_layout_witness:
  "\<exists>m. coords_circle (demo_env triangle (Raises FileNotFoundError)) () = Inr m
     \<and> map fst m = [1, 2, 3]
     \<and> m ! 0 = (1, (Fin 0, Fin 100))
     \<and> m ! 1 = (2, (Fin (100 * sin (2 * pi / 3)), Fin (100 * cos (2 * pi / 3))))
     \<and> m ! 2 = (3, (Fin (100 * sin (4 * pi / 3)), Fin (100 * cos (4 * pi / 3))))"
proof -
  let ?env = "demo_env triangle (Raises FileNotFoundError)"
  have h1: "convert_case_to_internal_format ?env () = Inr triangle"
    by (simp add: demo_env_def)
  have h2: "IDtoCountmap triangle \<noteq> []"
    by (simp add: triangle_def)
  have h3: "distinct (map fst (IDtoCountmap triangle))"
    by (simp add: triangle_def)
  have ids: "sort (map fst (IDtoCountmap triangle)) = [1, 2, 3]"
    by (simp add: triangle_def)
  have len: "length (IDtoCountmap triangle) = 3"
    by (simp add: triangle_def)
  from coords_circle_layout [OF h1 h2 h3] obtain m where
    m: "coords_circle ?env () = Inr m" "map fst m = [1, 2, 3]"
    and nth: "\<forall>k < 3. m ! k = ([1, 2, 3] ! k,
                (Fin (100 * sin (2 * pi * real k / 3)), Fin (100 * cos (2 * pi * real k / 3))))"
    unfolding ids len by auto
  from nth have "m ! 0 = (1, (Fin 0, Fin 100))" by simp
  moreover from nth
  have "m ! 1 = (2, (Fin (100 * sin (2 * pi / 3)), Fin (100 * cos (2 * pi / 3))))"
    by simp
  moreover from nth
  have "m ! 2 = (3, (Fin (100 * sin (4 * pi / 3)), Fin (100 * cos (4 * pi / 3))))"
    by simp
  ultimately show ?thesis using m by (intro exI [of _ m]) simp
qed

text \<open>
  Claim C10. For a network with no bus the circular fallback returns the empty map and
  raises nothing: the divisor of the angle is \<open>max(1, n)\<close>, which is 1 for \<open>n = 0\<close>,
  so the division is never one by zero.
\<close>

theorem coords_circle_no_buses:
  assumes "convert_case_to_internal_format env c = Inr a"
    and "IDtoCountmap a = []"
  shows "coords_circle env c = Inr []
       \<and> (\<forall>t. truediv t (max 1 (int (length (IDtoCountmap a)))) = Inr t)"
  using assms by (simp add: coords_circle_def truediv_def)

theorem coords_circle_no_buses_witness:
  "convert_case_to_internal_format (demo_env no_buses (Raises FileNotFoundError)) () = Inr no_buses
   \<and> IDtoCountmap no_buses = []
   \<and> coords_circle (demo_env no_buses (Raises FileNotFoundError)) () = Inr []"
proof -
  have h1: "convert_case_to_internal_format (demo_env no_buses (Raises FileNotFoundError)) ()
              = Inr no_buses"
    by (simp add: demo_env_def)
  have h2: "IDtoCountmap no_buses = []"
    by (simp add: no_buses_def)
  from coords_circle_no_buses [OF h1 h2] h1 h2 show ?thesis by simp
qed

subsection \<open>The strategy resolver\<close>

lemma coords_from_sfdp_raises:
  assumes "convert_case_to_internal_format env c = Inr a"
    and "run_sfdp env (graph_text a) = Raises e"
  shows "coords_from_sfdp env c = Inl e"
  using assms by (simp add: coords_from_sfdp_def)

text \<open>
  Claim C4. With \<open>coords\<close> given, \<open>_get_coords\<close> returns it as it is, whatever the
  environment. With \<open>coords = None\<close> it returns the force-directed result when there
  is one; when the force-directed layout raises \<open>FileNotFoundError\<close> or
  \<open>CalledProcessError\<close> it returns what the circular layout returns; every other
  exception is the call's exception. In particular an exception of the tool run is
  handled in this way.
\<close>

theorem get_coords_resolver:
  "get_coords env c (Some given) = Inr given
   \<and> (coords_from_sfdp env c = Inr r \<longrightarrow> get_coords env c None = Inr r)
   \<and> (coords_from_sfdp env c = Inl e \<and> (e = FileNotFoundError \<or> e = CalledProcessError)
        \<longrightarrow> get_coords env c None = coords_circle env c)
   \<and> (coords_from_sfdp env c = Inl e \<and> e \<noteq> FileNotFoundError \<and> e \<noteq> CalledProcessError
        \<longrightarrow> get_coords env c None = Inl e)
   \<and> (convert_case_to_internal_format env c = Inr a \<and> run_sfdp env (graph_text a) = Raises e
        \<longrightarrow> get_coords env c None =
             (if e = FileNotFoundError \<or> e = CalledProcessError then coords_circle env c
              else Inl e))"
proof -
  have tool: "coords_from_sfdp env c = Inl e"
    if "convert_case_to_internal_format env c = Inr a" "run_sfdp env (graph_text a) = Raises e"
    using that by (rule coords_from_sfdp_raises)
  show ?thesis
    by (auto simp: get_coords_def dest: tool)
qed

theorem get_coords_resolver_witness:
  "get_coords (demo_env triangle (Raises FileNotFoundError)) () None
     = coords_circle (demo_env triangle (Raises FileNotFoundError)) ()
   \<and> get_coords (demo_env triangle (Raises (OtherError ''PermissionError''))) () None
     = Inl (OtherError ''PermissionError'')"
proof -
  have c1: "convert_case_to_internal_format (demo_env triangle t) () = Inr triangle" for t
    by (simp add: demo_env_def)
  have r1: "run_sfdp (demo_env triangle t) (graph_text triangle) = Raises e \<longleftrightarrow> t = Raises e" for t e
    by (auto simp add: demo_env_def)
  show ?thesis
    using get_coords_resolver [of "demo_env triangle (Raises FileNotFoundError)" "()" "[]" "[]"
        FileNotFoundError triangle]
      get_coords_resolver [of "demo_env triangle (Raises (OtherError ''PermissionError''))" "()"
        "[]" "[]" "OtherError ''PermissionError''" triangle]
    by (simp add: c1 r1)
qed

subsection \<open>Tool output without node lines\<close>

lemma node_step_unparseable:
  "\<not> parseable_node_line env row \<Longrightarrow>
     node_step env row xy = Inl ValueError \<or> node_step env row xy = Inr xy"
  by (auto simp: parseable_node_line_def node_step_def Let_def split: option.splits)

lemma node_loop_unparseable:
  "\<forall>row \<in> set rows. \<not> parseable_node_line env row \<Longrightarrow>
     node_loop env rows xy = Inl ValueError \<or> node_loop env rows xy = Inr xy"
proof (induction rows)
  case Nil
  then show ?case by simp
next
  case (Cons row rows)
  then have "node_step env row xy = Inl ValueError \<or> node_step env row xy = Inr xy"
    by (simp add: node_step_unparseable)
  with Cons show ?case by auto
qed

lemma node_loop_no_node_line:
  "\<forall>row \<in> set rows. \<not> is_node_line (py_split row) \<Longrightarrow> node_loop env rows xy = Inr xy"
  by (induction rows) (auto simp: node_step_def)

text \<open>
  Claim C9. When the tool exits with status zero and no line of its output parses as
  \<open>node <id> <x> <y> ...\<close>, the force-directed layout raises \<open>ValueError\<close>, and so does
  \<open>_get_coords\<close>: the circular layout is not used. When no line even has the shape
  of a node line, the two dicts stay empty and the exception is that of \<open>min\<close> on an
  empty collection.
\<close>

theorem no_node_line_raises:
  assumes "convert_case_to_internal_format env c = Inr a"
    and "run_sfdp env (graph_text a) = Stdout out"
    and "\<forall>row \<in> set (splitlines out). \<not> parseable_node_line env row"
  shows "coords_from_sfdp env c = Inl ValueError
       \<and> get_coords env c None = Inl ValueError
       \<and> ((\<forall>row \<in> set (splitlines out). \<not> is_node_line (py_split row)) \<longrightarrow>
            node_loop env (splitlines out) ([], []) = Inr ([], [])
            \<and> py_min_list (map snd ([] :: (int \<times> pyfloat) list)) = Inl ValueError)"
proof -
  from assms(3) have "node_loop env (splitlines out) ([], []) = Inl ValueError
      \<or> node_loop env (splitlines out) ([], []) = Inr ([], [])"
    by (rule node_loop_unparseable)
  then have sfdp: "coords_from_sfdp env c = Inl ValueError"
    using assms(1,2) by (auto simp: coords_from_sfdp_def)
  then have "get_coords env c None = Inl ValueError"
    by (simp add: get_coords_def)
  with sfdp show ?thesis
    by (simp add: node_loop_no_node_line)
qed

theorem no_node_line_raises_witness:
  "get_coords (demo_env triangle (Stdout plain_no_nodes)) () None = Inl ValueError
   \<and> coords_from_sfdp (demo_env triangle (Stdout plain_no_nodes)) () = Inl ValueError"
proof -
  let ?env = "demo_env triangle (Stdout plain_no_nodes)"
  have h1: "convert_case_to_internal_format ?env () = Inr triangle"
    by (simp add: demo_env_def)
  have h2: "run_sfdp ?env (graph_text triangle) = Stdout plain_no_nodes"
    by (simp add: demo_env_def)
  have rows: "splitlines plain_no_nodes = [''graph 1 0 0'', ''stop'']"
    by (simp add: plain_no_nodes_def splitlines_def is_linebreak_def)
  have h3: "\<forall>row \<in> set (splitlines plain_no_nodes). \<not> parseable_node_line ?env row"
    by (simp add: rows parseable_node_line_def py_split_def is_space_def is_node_line_def)
  from no_node_line_raises [OF h1 h2 h3] show ?thesis by simp
qed

subsection \<open>Facts on dicts and on \<open>min\<close>\<close>

lemma map_lookup_keys:
  "distinct (map fst al) \<Longrightarrow> map (\<lambda>k. map_of al k) (map fst al) = map (\<lambda>p. Some (snd p)) al"
proof (induction al)
  case Nil
  then show ?case by simp
next
  case (Cons p al)
  obtain k v where p: "p = (k, v)" by (cases p)
  from Cons.prems p have "k \<notin> fst ` set al" by auto
  then have "map (\<lambda>k'. map_of (p # al) k') (map fst al) = map (\<lambda>k'. map_of al k') (map fst al)"
    by (auto simp: p)
  with Cons p show ?case by simp
qed

lemma CountToID_fold_sound:
  "map_of (fold (\<lambda>(k, v) d. AList.update v k d) items d0) c = Some b \<Longrightarrow>
     (b, c) \<in> set items \<or> map_of d0 c = Some b"
proof (induction items arbitrary: d0)
  case Nil
  then show ?case by simp
next
  case (Cons p items)
  obtain k v where p: "p = (k, v)" by (cases p)
  from Cons.prems p
  have "map_of (fold (\<lambda>(k, v) d. AList.update v k d) items (AList.update v k d0)) c = Some b"
    by simp
  from Cons.IH [OF this] show ?case
    by (auto simp: p update_conv' split: if_splits)
qed

lemma CountToID_fold_keys:
  "fst ` set (fold (\<lambda>(k, v) d. AList.update v k d) items d0) = snd ` set items \<union> fst ` set d0"
proof (induction items arbitrary: d0)
  case Nil
  then show ?case by simp
next
  case (Cons p items)
  obtain k v where p: "p = (k, v)" by (cases p)
  show ?case by (auto simp: p Cons.IH dom_update)
qed

lemma CountToID_sound:
  "map_of (CountToID_of items) c = Some b \<Longrightarrow> (b, c) \<in> set items"
  using CountToID_fold_sound [of items "[]" c b] by (simp add: CountToID_of_def)

lemma CountToID_defined:
  "c \<in> snd ` set items \<Longrightarrow> \<exists>b. map_of (CountToID_of items) c = Some b"
proof -
  assume "c \<in> snd ` set items"
  then have "c \<in> fst ` set (CountToID_of items)"
    by (simp add: CountToID_of_def CountToID_fold_keys)
  then show ?thesis
    by (metis domD dom_map_of_conv_image_fst)
qed

lemma CountToID_inj:
  assumes "distinct (map fst items)"
    and "map_of (CountToID_of items) c1 = Some b" "map_of (CountToID_of items) c2 = Some b"
  shows "c1 = c2"
proof -
  from assms(2,3) have "(b, c1) \<in> set items" "(b, c2) \<in> set items"
    by (auto dest: CountToID_sound)
  with assms(1) show ?thesis
    by (meson eq_key_imp_eq_value)
qed

lemma py_min_fold_fin:
  assumes "\<forall>v \<in> set vs. is_fin v"
  shows "\<exists>m. fold (\<lambda>item cur. py_min cur item) vs (Fin r) = Fin m \<and> m \<le> r
           \<and> (\<forall>v \<in> set vs. \<exists>s. v = Fin s \<and> m \<le> s) \<and> (m = r \<or> Fin m \<in> set vs)"
  using assms
proof (induction vs arbitrary: r)
  case Nil
  then show ?case by simp
next
  case (Cons v vs)
  then obtain s where v: "v = Fin s" by (cases v) auto
  have "py_min (Fin r) (Fin s) = Fin (min r s)"
    by (auto simp: py_min_def)
  then have step: "fold (\<lambda>item cur. py_min cur item) (v # vs) (Fin r)
      = fold (\<lambda>item cur. py_min cur item) vs (Fin (min r s))"
    by (simp add: v)
  from Cons.prems have "\<forall>v \<in> set vs. is_fin v" by simp
  from Cons.IH [OF this, of "min r s"] obtain m where
    m: "fold (\<lambda>item cur. py_min cur item) vs (Fin (min r s)) = Fin m" "m \<le> min r s"
    "\<forall>v \<in> set vs. \<exists>s. v = Fin s \<and> m \<le> s" "m = min r s \<or> Fin m \<in> set vs"
    by blast
  have last: "m = r \<or> Fin m \<in> set (v # vs)"
    using m(4) v by (auto simp: min_def split: if_splits)
  have all: "\<forall>w \<in> set (v # vs). \<exists>t. w = Fin t \<and> m \<le> t"
    using m(2,3) v by auto
  have "m \<le> r" using m(2) by simp
  with step m(1) all last show ?case
    by (intro exI [of _ m]) simp
qed

lemma py_min_list_fin:
  assumes "vs \<noteq> []" and "\<forall>v \<in> set vs. is_fin v"
  shows "\<exists>m. py_min_list vs = Inr (Fin m) \<and> Fin m \<in> set vs \<and> (\<forall>v \<in> set vs. \<exists>s. v = Fin s \<and> m \<le> s)"
proof -
  from assms obtain v rest where vs: "vs = v # rest" by (cases vs) auto
  with assms obtain r where v: "v = Fin r" by (cases v) auto
  from assms vs have "\<forall>v \<in> set rest. is_fin v" by simp
  from py_min_fold_fin [OF this, of r] obtain m where
    m: "fold (\<lambda>item cur. py_min cur item) rest (Fin r) = Fin m" "m \<le> r"
    "\<forall>v \<in> set rest. \<exists>s. v = Fin s \<and> m \<le> s" "m = r \<or> Fin m \<in> set rest"
    by blast
  then show ?thesis
    by (intro exI [of _ m]) (auto simp: vs v)
qed

lemma py_min_list_zero:
  assumes "Fin 0 \<in> set vs" and "\<forall>v \<in> set vs. \<exists>s. v = Fin s \<and> 0 \<le> s"
  shows "py_min_list vs = Inr (Fin 0)"
proof -
  from assms(1) have ne: "vs \<noteq> []" by auto
  from assms(2) have "\<forall>v \<in> set vs. is_fin v" by auto
  from py_min_list_fin [OF ne this] obtain m where
    m: "py_min_list vs = Inr (Fin m)" "Fin m \<in> set vs" "\<forall>v \<in> set vs. \<exists>s. v = Fin s \<and> m \<le> s"
    by blast
  from m(3) assms(1) have "m \<le> 0" by auto
  moreover from m(2) assms(2) have "0 \<le> m" by auto
  ultimately show ?thesis using m(1) by simp
qed

lemma shifted_min_zero:
  assumes "vs \<noteq> []" and "\<forall>v \<in> set vs. is_fin v" and "py_min_list vs = Inr mn"
  shows "py_min_list (map (\<lambda>v. fsub v mn) vs) = Inr (Fin 0)"
proof -
  from py_min_list_fin [OF assms(1,2)] assms(3) obtain m where
    m: "mn = Fin m" "Fin m \<in> set vs" "\<forall>v \<in> set vs. \<exists>s. v = Fin s \<and> m \<le> s"
    by auto
  have "Fin 0 \<in> set (map (\<lambda>v. fsub v mn) vs)"
  proof -
    have "fsub (Fin m) mn = Fin 0" by (simp add: m(1))
    with m(2) show ?thesis by (metis image_eqI set_map)
  qed
  moreover have "\<forall>v \<in> set (map (\<lambda>v. fsub v mn) vs). \<exists>s. v = Fin s \<and> 0 \<le> s"
  proof
    fix w assume "w \<in> set (map (\<lambda>v. fsub v mn) vs)"
    then obtain v where v: "v \<in> set vs" "w = fsub v mn" by auto
    with m(3) obtain s where "v = Fin s" "m \<le> s" by auto
    with v m(1) show "\<exists>s. w = Fin s \<and> 0 \<le> s" by simp
  qed
  ultimately show ?thesis by (rule py_min_list_zero)
qed

subsection \<open>The force-directed layout\<close>

lemma node_step_keys:
  assumes "node_step env row (x, y) = Inr (x', y')"
    and "map fst x = map fst y" and "distinct (map fst x)"
  shows "map fst x' = map fst y' \<and> distinct (map fst x')"
proof (cases "is_node_line (py_split row)")
  case False
  with assms show ?thesis by (simp add: node_step_def)
next
  case True
  with assms(1) obtain name X Y where
    "x' = AList.update name X x" "y' = AList.update name Y y"
    by (auto simp: node_step_def Let_def split: option.splits)
  with assms(2,3) show ?thesis
    by (simp add: update_keys distinct_update)
qed

lemma node_loop_keys:
  assumes "node_loop env rows (x, y) = Inr (x', y')"
    and "map fst x = map fst y" and "distinct (map fst x)"
  shows "map fst x' = map fst y' \<and> distinct (map fst x')"
  using assms
proof (induction rows arbitrary: x y)
  case Nil
  then show ?case by simp
next
  case (Cons row rows)
  from Cons.prems(1) obtain x1 y1 where
    step: "node_step env row (x, y) = Inr (x1, y1)"
    and rest: "node_loop env rows (x1, y1) = Inr (x', y')"
    by (auto split: sum.splits)
  from node_step_keys [OF step Cons.prems(2,3)]
  have k: "map fst x1 = map fst y1" "distinct (map fst x1)" by blast+
  show ?case by (rule Cons.IH [OF rest k])
qed

lemma node_step_nonempty:
  assumes "node_step env row (x, y) = Inr (x', y')"
    and "x \<noteq> [] \<or> is_node_line (py_split row)"
  shows "x' \<noteq> []"
  using assms by (auto simp: node_step_def Let_def split: option.splits if_splits)

lemma node_loop_nonempty:
  assumes "node_loop env rows (x, y) = Inr (x', y')"
    and "x \<noteq> [] \<or> (\<exists>row \<in> set rows. is_node_line (py_split row))"
  shows "x' \<noteq> []"
  using assms
proof (induction rows arbitrary: x y)
  case Nil
  then show ?case by simp
next
  case (Cons row rows)
  from Cons.prems(1) obtain x1 y1 where
    step: "node_step env row (x, y) = Inr (x1, y1)"
    and rest: "node_loop env rows (x1, y1) = Inr (x', y')"
    by (auto split: sum.splits)
  show ?case
  proof (cases "x \<noteq> [] \<or> is_node_line (py_split row)")
    case True
    with step have "x1 \<noteq> []" by (rule node_step_nonempty)
    with Cons.IH [OF rest] show ?thesis by simp
  next
    case False
    with Cons.prems(2) have "\<exists>row \<in> set rows. is_node_line (py_split row)" by auto
    with Cons.IH [OF rest] show ?thesis by simp
  qed
qed

lemma node_step_fields:
  assumes "node_step env row (x0, y0) = Inr (x1, y1)" and "is_node_line (py_split row)"
  shows "\<exists>name X Y. int_of_str env (py_split row ! 1) = Some name
           \<and> float_of_str env (py_split row ! 2) = Some X
           \<and> float_of_str env (py_split row ! 3) = Some Y
           \<and> x1 = AList.update name X x0 \<and> y1 = AList.update name Y y0"
  using assms by (auto simp: node_step_def Let_def split: option.splits)

lemma shift_loop_result:
  assumes "shift_loop minx miny C y items acc = Inr m"
    and "distinct (map fst items)"
    and "\<forall>c1 \<in> fst ` set items. \<forall>c2 \<in> fst ` set items. \<forall>b.
           map_of C c1 = Some b \<and> map_of C c2 = Some b \<longrightarrow> c1 = c2"
    and "\<forall>cnt \<in> fst ` set items. \<forall>b. map_of C cnt = Some b \<longrightarrow> b \<notin> fst ` set acc"
  shows "m = acc @ map (shifted minx miny C y) items"
  using assms
proof (induction items arbitrary: acc)
  case Nil
  then show ?case by simp
next
  case (Cons item items)
  obtain cnt X where item: "item = (cnt, X)" by (cases item)
  from Cons.prems(1) item obtain Y b where
    Y: "map_of y cnt = Some Y" and b: "map_of C cnt = Some b"
    and rest: "shift_loop minx miny C y items (AList.update b (fsub Y miny, fsub X minx) acc) = Inr m"
    by (auto simp: Let_def split: option.splits)
  let ?e = "(b, (fsub Y miny, fsub X minx))"
  from Cons.prems(4) item b have "b \<notin> fst ` set acc" by auto
  then have upd: "AList.update b (fsub Y miny, fsub X minx) acc = acc @ [?e]"
    by (rule update_fresh)
  have d: "distinct (map fst items)" using Cons.prems(2) by simp
  have inj: "\<forall>c1 \<in> fst ` set items. \<forall>c2 \<in> fst ` set items. \<forall>b.
           map_of C c1 = Some b \<and> map_of C c2 = Some b \<longrightarrow> c1 = c2"
    using Cons.prems(3) by simp
  have fresh: "\<forall>c \<in> fst ` set items. \<forall>b'. map_of C c = Some b' \<longrightarrow> b' \<notin> fst ` set (acc @ [?e])"
  proof (intro ballI allI impI)
    fix c b' assume c: "c \<in> fst ` set items" and b': "map_of C c = Some b'"
    from c Cons.prems(2) item have "c \<noteq> cnt" by auto
    moreover from c item have "c \<in> fst ` set (item # items)" "cnt \<in> fst ` set (item # items)"
      by auto
    ultimately have "b' \<noteq> b"
      using Cons.prems(3) b b' by blast
    moreover from Cons.prems(4) c b' have "b' \<notin> fst ` set acc" by auto
    ultimately show "b' \<notin> fst ` set (acc @ [?e])" by auto
  qed
  from Cons.IH [OF rest [unfolded upd] d inj fresh]
  show ?case by (simp add: item shifted_def Y b)
qed

lemma shift_loop_total:
  assumes "\<forall>cnt \<in> fst ` set items. map_of y cnt \<noteq> None \<and> map_of C cnt \<noteq> None"
  shows "\<exists>m. shift_loop minx miny C y items acc = Inr m"
  using assms
proof (induction items arbitrary: acc)
  case Nil
  then show ?case by simp
next
  case (Cons item items)
  obtain cnt X where item: "item = (cnt, X)" by (cases item)
  from Cons.prems item obtain Y b where "map_of y cnt = Some Y" "map_of C cnt = Some b"
    by auto
  moreover from Cons.prems have "\<forall>cnt \<in> fst ` set items. map_of y cnt \<noteq> None \<and> map_of C cnt \<noteq> None"
    by auto
  ultimately show ?case
    using Cons.IH by (simp add: item Let_def)
qed

lemma shift_loop_defined:
  assumes "shift_loop minx miny C y items acc = Inr m"
  shows "\<forall>cnt \<in> fst ` set items. map_of y cnt \<noteq> None \<and> map_of C cnt \<noteq> None"
  using assms
proof (induction items arbitrary: acc)
  case Nil
  then show ?case by simp
next
  case (Cons item items)
  obtain cnt X where item: "item = (cnt, X)" by (cases item)
  from Cons.prems item obtain Y b where
    Y: "map_of y cnt = Some Y" and b: "map_of C cnt = Some b"
    and rest: "shift_loop minx miny C y items (AList.update b (fsub Y miny, fsub X minx) acc) = Inr m"
    by (auto simp: Let_def split: option.splits)
  from Cons.IH [OF rest] Y b show ?case by (simp add: item)
qed

lemma coords_from_sfdp_unfold:
  assumes "convert_case_to_internal_format env c = Inr a"
    and "run_sfdp env (graph_text a) = Stdout out"
    and "node_loop env (splitlines out) ([], []) = Inr (x, y)"
    and "py_min_list (map snd x) = Inr minx"
    and "py_min_list (map snd y) = Inr miny"
  shows "coords_from_sfdp env c
           = shift_loop minx miny (CountToID_of (IDtoCountmap a)) y x []"
  using assms by (simp add: coords_from_sfdp_def)

lemma coords_from_sfdp_parts:
  assumes "convert_case_to_internal_format env c = Inr a"
    and "run_sfdp env (graph_text a) = Stdout out"
    and "coords_from_sfdp env c = Inr m"
  shows "\<exists>x y minx miny. node_loop env (splitlines out) ([], []) = Inr (x, y)
           \<and> py_min_list (map snd x) = Inr minx \<and> py_min_list (map snd y) = Inr miny
           \<and> shift_loop minx miny (CountToID_of (IDtoCountmap a)) y x [] = Inr m"
  using assms by (auto simp: coords_from_sfdp_def split: sum.splits)

lemma shift_loop_map:
  assumes dist: "distinct (map fst (IDtoCountmap a))"
    and keys: "distinct (map fst x)"
    and res: "shift_loop minx miny (CountToID_of (IDtoCountmap a)) y x [] = Inr m"
  shows "m = map (shifted minx miny (CountToID_of (IDtoCountmap a)) y) x"
proof -
  let ?C = "CountToID_of (IDtoCountmap a)"
  have inj: "\<forall>c1 \<in> fst ` set x. \<forall>c2 \<in> fst ` set x. \<forall>b.
           map_of ?C c1 = Some b \<and> map_of ?C c2 = Some b \<longrightarrow> c1 = c2"
    using CountToID_inj [OF dist] by blast
  have fresh: "\<forall>cnt \<in> fst ` set x. \<forall>b. map_of ?C cnt = Some b
      \<longrightarrow> b \<notin> fst ` set ([] :: coords)"
    by simp
  from shift_loop_result [OF res keys inj fresh] show ?thesis by simp
qed

lemma shifted_x_parts:
  "map (\<lambda>(bus, (Yn, Xn)). Xn) (map (shifted minx miny C y) x) = map (\<lambda>v. fsub v minx) (map snd x)"
  by (simp add: shifted_def comp_def)

lemma shifted_y_parts:
  assumes "map fst x = map fst y" and "distinct (map fst y)"
  shows "map (\<lambda>(bus, (Yn, Xn)). Yn) (map (shifted minx miny C y) x)
           = map (\<lambda>v. fsub v miny) (map snd y)"
proof -
  have "map (\<lambda>(bus, (Yn, Xn)). Yn) (map (shifted minx miny C y) x)
          = map (\<lambda>k. fsub (the (map_of y k)) miny) (map fst x)"
    by (simp add: shifted_def comp_def)
  also have "\<dots> = map (\<lambda>r. fsub (the r) miny) (map (\<lambda>k. map_of y k) (map fst y))"
    by (simp add: assms(1) comp_def)
  also have "\<dots> = map (\<lambda>r. fsub (the r) miny) (map (\<lambda>p. Some (snd p)) y)"
    by (simp only: map_lookup_keys [OF assms(2)])
  also have "\<dots> = map (\<lambda>v. fsub v miny) (map snd y)"
    by (simp add: comp_def)
  finally show ?thesis .
qed

lemma splitlines_plain_triangle:
  "splitlines plain_triangle =
     [''graph 1 3 3'', ''node 1 1 2 0 0'', ''node 2 3 1 0 0'', ''node 3 2 3 0 0'',
      ''edge 1 2 4 1 2 3 1'', ''stop'']"
  by (simp add: plain_triangle_def splitlines_def is_linebreak_def)

lemma py_split_examples:
  "py_split ''graph 1 3 3'' = [''graph'', ''1'', ''3'', ''3'']"
  "py_split ''node 1 1 2 0 0'' = [''node'', ''1'', ''1'', ''2'', ''0'', ''0'']"
  "py_split ''node 2 3 1 0 0'' = [''node'', ''2'', ''3'', ''1'', ''0'', ''0'']"
  "py_split ''node 3 2 3 0 0'' = [''node'', ''3'', ''2'', ''3'', ''0'', ''0'']"
  "py_split ''edge 1 2 4 1 2 3 1'' = [''edge'', ''1'', ''2'', ''4'', ''1'', ''2'', ''3'', ''1'']"
  "py_split ''stop'' = [''stop'']"
  "py_split ''node 1 inf 0'' = [''node'', ''1'', ''inf'', ''0'']"
  by (simp_all add: py_split_def is_space_def)

lemma node_loop_plain_triangle:
  "node_loop (demo_env a (Stdout plain_triangle)) (splitlines plain_triangle) ([], [])
     = Inr ([(1, Fin 1), (2, Fin 3), (3, Fin 2)], [(1, Fin 2), (2, Fin 1), (3, Fin 3)])"
  by (simp add: splitlines_plain_triangle node_step_def py_split_examples is_node_line_def
      demo_env_def int_table_def float_table_def)

text \<open>
  Claim C6, as amended. Let the tool's output hold at least one parseable node line,
  let the loop over its lines end without an exception with the dicts \<open>x\<close> and \<open>y\<close>,
  every node identifier being the count of a bus and every position a finite float.
  Then the force-directed layout returns a map, with one entry per node, and the
  minimum (Python's \<open>min\<close>) of the emitted x values is exactly 0, as is that of the
  emitted y values. (\<open>IDtoCountmap\<close> is a dict: its keys are distinct.)
\<close>

theorem sfdp_coords_min_zero:
  assumes conv: "convert_case_to_internal_format env c = Inr a"
    and dist: "distinct (map fst (IDtoCountmap a))"
    and tool: "run_sfdp env (graph_text a) = Stdout out"
    and loop: "node_loop env (splitlines out) ([], []) = Inr (x, y)"
    and some: "\<exists>row \<in> set (splitlines out). parseable_node_line env row"
    and known: "fst ` set x \<subseteq> snd ` set (IDtoCountmap a)"
    and finx: "\<forall>v \<in> set (map snd x). is_fin v"
    and finy: "\<forall>v \<in> set (map snd y). is_fin v"
  shows "\<exists>m. coords_from_sfdp env c = Inr m \<and> length m = length x
           \<and> py_min_list (map (\<lambda>(bus, (Yn, Xn)). Xn) m) = Inr (Fin 0)
           \<and> py_min_list (map (\<lambda>(bus, (Yn, Xn)). Yn) m) = Inr (Fin 0)"
proof -
  let ?C = "CountToID_of (IDtoCountmap a)"
  from node_loop_keys [OF loop] have keys: "map fst x = map fst y" "distinct (map fst x)"
    by auto
  then have keysy: "distinct (map fst y)" by simp
  from some have "\<exists>row \<in> set (splitlines out). is_node_line (py_split row)"
    by (auto simp: parseable_node_line_def Let_def)
  with node_loop_nonempty [OF loop] have xne: "x \<noteq> []" by simp
  with keys(1) have yne: "y \<noteq> []" by auto
  from py_min_list_fin [of "map snd x"] xne finx obtain mx where
    mx: "py_min_list (map snd x) = Inr (Fin mx)" by auto
  from py_min_list_fin [of "map snd y"] yne finy obtain my where
    my: "py_min_list (map snd y) = Inr (Fin my)" by auto
  have unf: "coords_from_sfdp env c = shift_loop (Fin mx) (Fin my) ?C y x []"
    using conv tool loop mx my by (rule coords_from_sfdp_unfold)
  have "\<forall>cnt \<in> fst ` set x. map_of y cnt \<noteq> None \<and> map_of ?C cnt \<noteq> None"
  proof
    fix cnt assume cnt: "cnt \<in> fst ` set x"
    then have "cnt \<in> fst ` set y"
      using keys(1) by (metis set_map)
    then have "map_of y cnt \<noteq> None"
      by (simp add: map_of_eq_None_iff)
    moreover from cnt known have "map_of ?C cnt \<noteq> None"
      using CountToID_defined [of cnt "IDtoCountmap a"] by auto
    ultimately show "map_of y cnt \<noteq> None \<and> map_of ?C cnt \<noteq> None" by simp
  qed
  from shift_loop_total [OF this] obtain m where
    m: "shift_loop (Fin mx) (Fin my) ?C y x [] = Inr m" by blast
  from shift_loop_map [OF dist keys(2) m]
  have meq: "m = map (shifted (Fin mx) (Fin my) ?C y) x" .
  have "py_min_list (map (\<lambda>(bus, (Yn, Xn)). Xn) m) = Inr (Fin 0)"
    unfolding meq shifted_x_parts
    using xne finx mx by (intro shifted_min_zero) simp_all
  moreover have "py_min_list (map (\<lambda>(bus, (Yn, Xn)). Yn) m) = Inr (Fin 0)"
    unfolding meq shifted_y_parts [OF keys(1) keysy]
    using yne finy my by (intro shifted_min_zero) simp_all
  ultimately show ?thesis
    using unf m meq by simp
qed

text \<open>
  The triangle, laid out by the tool at (1, 2), (3, 1) and (2, 3).
\<close>

theorem sfdp_coords_min_zero_witness:
  "coords_from_sfdp (demo_env triangle (Stdout plain_triangle)) ()
     = Inr [(1, (Fin 1, Fin 0)), (2, (Fin 0, Fin 2)), (3, (Fin 2, Fin 1))]
   \<and> py_min_list (map (\<lambda>(bus, (Yn, Xn)). Xn)
        ([(1, (Fin 1, Fin 0)), (2, (Fin 0, Fin 2)), (3, (Fin 2, Fin 1))] :: coords)) = Inr (Fin 0)
   \<and> py_min_list (map (\<lambda>(bus, (Yn, Xn)). Yn)
        ([(1, (Fin 1, Fin 0)), (2, (Fin 0, Fin 2)), (3, (Fin 2, Fin 1))] :: coords)) = Inr (Fin 0)"
proof -
  let ?env = "demo_env triangle (Stdout plain_triangle)"
  let ?x = "[(1, Fin 1), (2, Fin 3), (3, Fin 2)] :: (int \<times> pyfloat) list"
  let ?y = "[(1, Fin 2), (2, Fin 1), (3, Fin 3)] :: (int \<times> pyfloat) list"
  have h1: "convert_case_to_internal_format ?env () = Inr triangle"
    by (simp add: demo_env_def)
  have h2: "distinct (map fst (IDtoCountmap triangle))"
    by (simp add: triangle_def)
  have h3: "run_sfdp ?env (graph_text triangle) = Stdout plain_triangle"
    by (simp add: demo_env_def)
  have h4: "node_loop ?env (splitlines plain_triangle) ([], []) = Inr (?x, ?y)"
    by (rule node_loop_plain_triangle)
  have h5: "\<exists>row \<in> set (splitlines plain_triangle). parseable_node_line ?env row"
    by (simp add: splitlines_plain_triangle parseable_node_line_def py_split_examples
        is_node_line_def demo_env_def int_table_def float_table_def)
  have h6: "fst ` set ?x \<subseteq> snd ` set (IDtoCountmap triangle)"
    by (simp add: triangle_def)
  have h7: "\<forall>v \<in> set (map snd ?x). is_fin v" by simp
  have h8: "\<forall>v \<in> set (map snd ?y). is_fin v" by simp
  from sfdp_coords_min_zero [OF h1 h2 h3 h4 h5 h6 h7 h8] obtain m where
    m: "coords_from_sfdp ?env () = Inr m"
    "py_min_list (map (\<lambda>(bus, (Yn, Xn)). Xn) m) = Inr (Fin 0)"
    "py_min_list (map (\<lambda>(bus, (Yn, Xn)). Yn) m) = Inr (Fin 0)"
    by blast
  have mx: "py_min_list (map snd ?x) = Inr (Fin 1)"
    by (simp add: py_min_def)
  have my: "py_min_list (map snd ?y) = Inr (Fin 1)"
    by (simp add: py_min_def)
  have ev: "coords_from_sfdp ?env ()
      = Inr [(1, (Fin 1, Fin 0)), (2, (Fin 0, Fin 2)), (3, (Fin 2, Fin 1))]"
    unfolding coords_from_sfdp_unfold [OF h1 h3 h4 mx my]
    by (simp add: CountToID_of_def triangle_def)
  with m(1) have meq: "m = [(1, (Fin 1, Fin 0)), (2, (Fin 0, Fin 2)), (3, (Fin 2, Fin 1))]"
    by simp
  from ev m(2) [unfolded meq] m(3) [unfolded meq] show ?thesis by blast
qed

text \<open>
  Claim C6 as the specification states it fails for a position that is not finite:
  \<open>float\<close> reads \<open>inf\<close>, the minimum is \<open>inf\<close>, and \<open>inf - inf\<close> is \<open>nan\<close>. The output
  \<open>node 1 inf 0\<close> has a parseable node line, a map is returned, and the minimum of
  its x values is \<open>nan\<close>, not 0.
\<close>

theorem sfdp_coords_min_nan:
  "parseable_node_line (demo_env single_bus (Stdout plain_inf)) ''node 1 inf 0''
   \<and> splitlines plain_inf = [''node 1 inf 0'']
   \<and> coords_from_sfdp (demo_env single_bus (Stdout plain_inf)) () = Inr [(1, (Fin 0, NaN))]
   \<and> py_min_list (map (\<lambda>(bus, (Yn, Xn)). Xn) ([(1, (Fin 0, NaN))] :: coords)) = Inr NaN
   \<and> NaN \<noteq> Fin 0"
proof -
  let ?env = "demo_env single_bus (Stdout plain_inf)"
  have rows: "splitlines plain_inf = [''node 1 inf 0'']"
    by (simp add: plain_inf_def splitlines_def is_linebreak_def)
  have p: "parseable_node_line ?env ''node 1 inf 0''"
    by (simp add: parseable_node_line_def py_split_examples is_node_line_def demo_env_def
        int_table_def float_table_def)
  have loop: "node_loop ?env (splitlines plain_inf) ([], []) = Inr ([(1, PInf)], [(1, Fin 0)])"
    by (simp add: rows node_step_def py_split_examples is_node_line_def demo_env_def
        int_table_def float_table_def)
  have h1: "convert_case_to_internal_format ?env () = Inr single_bus"
    by (simp add: demo_env_def)
  have h3: "run_sfdp ?env (graph_text single_bus) = Stdout plain_inf"
    by (simp add: demo_env_def)
  have mx: "py_min_list (map snd [(1 :: int, PInf)]) = Inr PInf" by simp
  have my: "py_min_list (map snd [(1 :: int, Fin 0)]) = Inr (Fin 0)" by simp
  have "coords_from_sfdp ?env () = Inr [(1, (Fin 0, NaN))]"
    unfolding coords_from_sfdp_unfold [OF h1 h3 loop mx my]
    by (simp add: CountToID_of_def single_bus_def)
  with rows p show ?thesis by simp
qed

text \<open>
  Claim C8. When the force-directed layout returns a map \<open>m\<close>, its \<open>i\<close>-th entry
  belongs to the \<open>i\<close>-th node of the tool's output: its key is the bus identifier that
  \<open>IDtoCountmap\<close> maps to the node's count, and its value is the pair (tool's y minus
  the least y, tool's x minus the least x), the y first. The dict \<open>x\<close> holds the third
  field of a node line and \<open>y\<close> the fourth. When the circular layout returns a map, it
  has one entry per bus, and the entry of the bus of rank \<open>k\<close> among \<open>n\<close> is the pair
  \<open>(100 * sin \<theta>, 100 * cos \<theta>)\<close> with \<open>\<theta> = 2 * pi * k / n\<close>: the code's
  \<open>y = R * sin \<theta>\<close> first, its \<open>x = R * cos \<theta>\<close> second.
\<close>

theorem coords_axes_swapped:
  assumes conv: "convert_case_to_internal_format env c = Inr a"
    and dist: "distinct (map fst (IDtoCountmap a))"
  shows "(run_sfdp env (graph_text a) = Stdout out \<and> coords_from_sfdp env c = Inr m \<longrightarrow>
           (\<exists>x y minx miny.
              node_loop env (splitlines out) ([], []) = Inr (x, y)
              \<and> py_min_list (map snd x) = Inr minx \<and> py_min_list (map snd y) = Inr miny
              \<and> map fst y = map fst x \<and> length m = length x
              \<and> (\<forall>i < length x. \<exists>bus. (bus, fst (x ! i)) \<in> set (IDtoCountmap a)
                    \<and> m ! i = (bus, (fsub (snd (y ! i)) miny, fsub (snd (x ! i)) minx)))))
       \<and> (node_step env row (x0, y0) = Inr (x1, y1) \<and> is_node_line (py_split row) \<longrightarrow>
           (\<exists>name X Y. int_of_str env (py_split row ! 1) = Some name
              \<and> float_of_str env (py_split row ! 2) = Some X
              \<and> float_of_str env (py_split row ! 3) = Some Y
              \<and> x1 = AList.update name X x0 \<and> y1 = AList.update name Y y0))
       \<and> (coords_circle env c = Inr mc \<longrightarrow>
           length mc = length (IDtoCountmap a)
           \<and> (\<forall>k < length (IDtoCountmap a).
                 mc ! k = (sort (map fst (IDtoCountmap a)) ! k,
                           (Fin (100 * sin (2 * pi * real k / real (length (IDtoCountmap a)))),
                            Fin (100 * cos (2 * pi * real k / real (length (IDtoCountmap a))))))))"
proof (intro conjI impI)
  assume "run_sfdp env (graph_text a) = Stdout out \<and> coords_from_sfdp env c = Inr m"
  then have tool: "run_sfdp env (graph_text a) = Stdout out" and res: "coords_from_sfdp env c = Inr m"
    by simp_all
  let ?C = "CountToID_of (IDtoCountmap a)"
  from coords_from_sfdp_parts [OF conv tool res] obtain x y minx miny where
    loop: "node_loop env (splitlines out) ([], []) = Inr (x, y)"
    and mx: "py_min_list (map snd x) = Inr minx" and my: "py_min_list (map snd y) = Inr miny"
    and sh: "shift_loop minx miny ?C y x [] = Inr m"
    by blast
  from node_loop_keys [OF loop] have keys: "map fst x = map fst y" "distinct (map fst x)"
    by auto
  from shift_loop_map [OF dist keys(2) sh]
  have meq: "m = map (shifted minx miny ?C y) x" .
  have entry: "\<exists>bus. (bus, fst (x ! i)) \<in> set (IDtoCountmap a)
      \<and> m ! i = (bus, (fsub (snd (y ! i)) miny, fsub (snd (x ! i)) minx))"
    if i: "i < length x" for i
  proof -
    have len: "length y = length x"
      using keys(1) by (metis length_map)
    from i have "fst (x ! i) \<in> fst ` set x" by simp
    with shift_loop_defined [OF sh] obtain bus where
      bus: "map_of ?C (fst (x ! i)) = Some bus" by auto
    then have inmap: "(bus, fst (x ! i)) \<in> set (IDtoCountmap a)"
      by (rule CountToID_sound)
    have "fst (y ! i) = fst (x ! i)"
      using keys(1) i len by (metis nth_map)
    moreover have "map_of y (fst (y ! i)) = Some (snd (y ! i))"
      using keys i len by (intro map_of_is_SomeI) simp_all
    ultimately have "map_of y (fst (x ! i)) = Some (snd (y ! i))" by simp
    with bus i have "m ! i = (bus, (fsub (snd (y ! i)) miny, fsub (snd (x ! i)) minx))"
      by (simp add: meq shifted_def)
    with inmap show ?thesis by blast
  qed
  have "length m = length x" by (simp add: meq)
  with loop mx my keys(1) entry
  show "\<exists>x y minx miny.
          node_loop env (splitlines out) ([], []) = Inr (x, y)
          \<and> py_min_list (map snd x) = Inr minx \<and> py_min_list (map snd y) = Inr miny
          \<and> map fst y = map fst x \<and> length m = length x
          \<and> (\<forall>i < length x. \<exists>bus. (bus, fst (x ! i)) \<in> set (IDtoCountmap a)
                \<and> m ! i = (bus, (fsub (snd (y ! i)) miny, fsub (snd (x ! i)) minx)))"
    by (intro exI [of _ x] exI [of _ y] exI [of _ minx] exI [of _ miny]) simp
next
  assume "node_step env row (x0, y0) = Inr (x1, y1) \<and> is_node_line (py_split row)"
  then show "\<exists>name X Y. int_of_str env (py_split row ! 1) = Some name
      \<and> float_of_str env (py_split row ! 2) = Some X
      \<and> float_of_str env (py_split row ! 3) = Some Y
      \<and> x1 = AList.update name X x0 \<and> y1 = AList.update name Y y0"
    using node_step_fields by blast
next
  assume "coords_circle env c = Inr mc"
  from coords_circle_nth(1) [OF conv dist this]
  show "length mc = length (IDtoCountmap a)" .
next
  assume res: "coords_circle env c = Inr mc"
  show "\<forall>k < length (IDtoCountmap a).
          mc ! k = (sort (map fst (IDtoCountmap a)) ! k,
                    (Fin (100 * sin (2 * pi * real k / real (length (IDtoCountmap a)))),
                     Fin (100 * cos (2 * pi * real k / real (length (IDtoCountmap a))))))"
    using coords_circle_nth(2) [OF conv dist res] by (simp add: circle_entry_def)
qed

text \<open>
  A network whose buses 10, 20, 30 have the counts 1, 2, 3: the force-directed map
  is keyed by 10, 20, 30, and the node at (1, 2) gets (2 - 1, 1 - 1). Two buses on
  the circle: the angles are 0 and \<open>pi\<close>, the code's \<open>(x, y)\<close> are (100, 0) and
  (-100, 0), and the entries written are (0, 100) and (0, -100).
\<close>

theorem coords_axes_swapped_witness:
  "(\<exists>m. coords_from_sfdp (demo_env renumbered (Stdout plain_triangle)) () = Inr m
      \<and> length m = 3
      \<and> m ! 0 = (10, (Fin 1, Fin 0)) \<and> m ! 1 = (20, (Fin 0, Fin 2)) \<and> m ! 2 = (30, (Fin 2, Fin 1)))
   \<and> (\<exists>mc. coords_circle (demo_env two_buses (Raises FileNotFoundError)) () = Inr mc
      \<and> length mc = 2
      \<and> mc ! 0 = (1, (Fin 0, Fin 100)) \<and> mc ! 1 = (2, (Fin 0, Fin (- 100))))"
proof (rule conjI)
  let ?env = "demo_env renumbered (Stdout plain_triangle)"
  let ?x = "[(1, Fin 1), (2, Fin 3), (3, Fin 2)] :: (int \<times> pyfloat) list"
  let ?y = "[(1, Fin 2), (2, Fin 1), (3, Fin 3)] :: (int \<times> pyfloat) list"
  have h1: "convert_case_to_internal_format ?env () = Inr renumbered"
    by (simp add: demo_env_def)
  have h2: "distinct (map fst (IDtoCountmap renumbered))"
    by (simp add: renumbered_def)
  have h3: "run_sfdp ?env (graph_text renumbered) = Stdout plain_triangle"
    by (simp add: demo_env_def)
  have h4: "node_loop ?env (splitlines plain_triangle) ([], []) = Inr (?x, ?y)"
    by (rule node_loop_plain_triangle)
  have mx: "py_min_list (map snd ?x) = Inr (Fin 1)"
    by (simp add: py_min_def)
  have my: "py_min_list (map snd ?y) = Inr (Fin 1)"
    by (simp add: py_min_def)
  have "\<exists>m. coords_from_sfdp ?env () = Inr m"
    unfolding coords_from_sfdp_unfold [OF h1 h3 h4 mx my]
    by (simp add: CountToID_of_def renumbered_def)
  then obtain m where res: "coords_from_sfdp ?env () = Inr m" by blast
  from coords_axes_swapped [OF h1 h2, of plain_triangle m] h3 res
  obtain x y minx miny where
    loop: "node_loop ?env (splitlines plain_triangle) ([], []) = Inr (x, y)"
    and mins: "py_min_list (map snd x) = Inr minx" "py_min_list (map snd y) = Inr miny"
    and len: "length m = length x"
    and entries: "\<forall>i < length x. \<exists>bus. (bus, fst (x ! i)) \<in> set (IDtoCountmap renumbered)
           \<and> m ! i = (bus, (fsub (snd (y ! i)) miny, fsub (snd (x ! i)) minx))"
    by blast
  from loop h4 have xy: "x = ?x" "y = ?y" by simp_all
  from mins mx my have mn: "minx = Fin 1" "miny = Fin 1" by (simp_all add: xy)
  have e: "\<forall>i < 3. \<exists>bus. (bus, fst (?x ! i)) \<in> set (IDtoCountmap renumbered)
           \<and> m ! i = (bus, (fsub (snd (?y ! i)) (Fin 1), fsub (snd (?x ! i)) (Fin 1)))"
    using entries unfolding xy mn by simp
  have "0 < (3::nat)" "1 < (3::nat)" "2 < (3::nat)" by simp_all
  note at = e [rule_format, OF this(1)] e [rule_format, OF this(2)] e [rule_format, OF this(3)]
  from at(1) have "m ! 0 = (10, (Fin 1, Fin 0))"
    by (auto simp: renumbered_def)
  moreover from at(2) have "m ! 1 = (20, (Fin 0, Fin 2))"
    by (auto simp: renumbered_def)
  moreover from at(3) have "m ! 2 = (30, (Fin 2, Fin 1))"
    by (auto simp: renumbered_def)
  moreover have "length m = 3" using len xy by simp
  ultimately show "\<exists>m. coords_from_sfdp ?env () = Inr m \<and> length m = 3
      \<and> m ! 0 = (10, (Fin 1, Fin 0)) \<and> m ! 1 = (20, (Fin 0, Fin 2)) \<and> m ! 2 = (30, (Fin 2, Fin 1))"
    using res by blast
next
  let ?env = "demo_env two_buses (Raises FileNotFoundError)"
  have h1: "convert_case_to_internal_format ?env () = Inr two_buses"
    by (simp add: demo_env_def)
  have h2: "distinct (map fst (IDtoCountmap two_buses))"
    by (simp add: two_buses_def)
  have ne: "IDtoCountmap two_buses \<noteq> []"
    by (simp add: two_buses_def)
  have ids: "sort (map fst (IDtoCountmap two_buses)) = [1, 2]"
    by (simp add: two_buses_def)
  have len: "length (IDtoCountmap two_buses) = 2"
    by (simp add: two_buses_def)
  from coords_circle_eq [OF h1 ne h2] obtain mc where res: "coords_circle ?env () = Inr mc"
    by blast
  from coords_axes_swapped [OF h1 h2, where mc = mc] res
  have n: "length mc = 2"
    and e: "\<forall>k < 2. mc ! k = ([1, 2] ! k,
                (Fin (100 * sin (2 * pi * real k / 2)), Fin (100 * cos (2 * pi * real k / 2))))"
    unfolding ids len by auto
  have "0 < (2::nat)" "1 < (2::nat)" by simp_all
  note at = e [rule_format, OF this(1)] e [rule_format, OF this(2)]
  from at(1) have "mc ! 0 = (1, (Fin 0, Fin 100))" by simp
  moreover from at(2) have "mc ! 1 = (2, (Fin 0, Fin (- 100)))" by simp
  ultimately show "\<exists>mc. coords_circle ?env () = Inr mc \<and> length mc = 2
      \<and> mc ! 0 = (1, (Fin 0, Fin 100)) \<and> mc ! 1 = (2, (Fin 0, Fin (- 100)))"
    using res n by blast
qed

subsection \<open>The annotation restyle\<close>

lemma obj_scan_None: "obj_scan anns = None \<longleftrightarrow> (\<forall>a \<in> set anns. \<not> is_objective a)"
  by (induction anns) (auto simp: is_objective_def split: pyval.splits)

lemma obj_scan_Some:
  "obj_scan anns = Some s \<longleftrightarrow>
     (\<exists>i < length anns. is_objective (anns ! i) \<and> s = objective_text (anns ! i)
        \<and> (\<forall>j < i. \<not> is_objective (anns ! j)))"
proof (induction anns)
  case Nil
  then show ?case by simp
next
  case (Cons a anns)
  show ?case
  proof (cases "is_objective a")
    case True
    then have scan: "obj_scan (a # anns) = Some (objective_text a)"
      by (auto simp: is_objective_def objective_text_def split: pyval.splits)
    show ?thesis
    proof
      assume "obj_scan (a # anns) = Some s"
      with scan have "s = objective_text a" by simp
      with True show "\<exists>i < length (a # anns). is_objective ((a # anns) ! i)
          \<and> s = objective_text ((a # anns) ! i) \<and> (\<forall>j < i. \<not> is_objective ((a # anns) ! j))"
        by (intro exI [of _ 0]) simp
    next
      assume "\<exists>i < length (a # anns). is_objective ((a # anns) ! i)
          \<and> s = objective_text ((a # anns) ! i) \<and> (\<forall>j < i. \<not> is_objective ((a # anns) ! j))"
      then obtain i where i: "s = objective_text ((a # anns) ! i)"
        "\<forall>j < i. \<not> is_objective ((a # anns) ! j)" by blast
      have "i = 0"
      proof (rule ccontr)
        assume "i \<noteq> 0"
        then have "0 < i" by simp
        with i(2) have "\<not> is_objective ((a # anns) ! 0)" by blast
        with True show False by simp
      qed
      with i scan show "obj_scan (a # anns) = Some s" by simp
    qed
  next
    case False
    then have scan: "obj_scan (a # anns) = obj_scan anns"
      by (auto simp: is_objective_def split: pyval.splits)
    have "(\<exists>i < length (a # anns). is_objective ((a # anns) ! i)
          \<and> s = objective_text ((a # anns) ! i) \<and> (\<forall>j < i. \<not> is_objective ((a # anns) ! j)))
      \<longleftrightarrow> (\<exists>i < length anns. is_objective (anns ! i) \<and> s = objective_text (anns ! i)
          \<and> (\<forall>j < i. \<not> is_objective (anns ! j)))" (is "?L \<longleftrightarrow> ?R")
    proof
      assume ?L
      then obtain i where i: "i < length (a # anns)" "is_objective ((a # anns) ! i)"
        "s = objective_text ((a # anns) ! i)" "\<forall>j < i. \<not> is_objective ((a # anns) ! j)"
        by blast
      with False obtain i' where i': "i = Suc i'" by (cases i) auto
      have "\<forall>j < i'. \<not> is_objective (anns ! j)"
      proof (intro allI impI)
        fix j assume "j < i'"
        then have "Suc j < i" using i' by simp
        with i(4) have "\<not> is_objective ((a # anns) ! Suc j)" by blast
        then show "\<not> is_objective (anns ! j)" by simp
      qed
      with i i' show ?R by (intro exI [of _ i']) simp
    next
      assume ?R
      then obtain i where i: "i < length anns" "is_objective (anns ! i)"
        "s = objective_text (anns ! i)" "\<forall>j < i. \<not> is_objective (anns ! j)"
        by blast
      have "\<forall>j < Suc i. \<not> is_objective ((a # anns) ! j)"
      proof (intro allI impI)
        fix j assume "j < Suc i"
        then show "\<not> is_objective ((a # anns) ! j)"
          using False i(4) by (cases j) auto
      qed
      with i show ?L by (intro exI [of _ "Suc i"]) simp
    qed
    with scan Cons.IH show ?thesis by simp
  qed
qed

lemma join_Cons2: "rest \<noteq> [] \<Longrightarrow> join sep (s # rest) = s @ sep @ join sep rest"
  by (cases rest) simp_all

lemma legend_lines_nonempty: "legend_lines \<noteq> []"
  by (simp add: legend_lines_def)

lemma legend_no_obj: "\<not> contains ''OBJ'' (join ''<br>'' legend_lines)"
  by (simp add: legend_lines_def)

lemma strip_keeps_prefix:
  assumes "startswith s ''OBJ''"
  shows "startswith (py_strip s) ''OBJ''"
proof -
  from assms obtain rest where s: "s = ''OBJ'' @ rest"
    by (metis append_take_drop_id startswith_def)
  have ns: "\<not> is_space CHR ''O''" "\<not> is_space CHR ''B''" "\<not> is_space CHR ''J''"
    by (simp_all add: is_space_def)
  have "dropWhile is_space s = s" using s ns by simp
  moreover have "\<exists>r. rev (dropWhile is_space (rev s)) = ''OBJ'' @ r"
  proof -
    have "rev s = rev rest @ ''JBO''" using s by simp
    then have "dropWhile is_space (rev s) = dropWhile is_space (rev rest) @ ''JBO''
        \<or> dropWhile is_space (rev s) = ''JBO''"
      using ns by (auto simp: dropWhile_append)
    then show ?thesis
    proof
      assume "dropWhile is_space (rev s) = dropWhile is_space (rev rest) @ ''JBO''"
      then have "rev (dropWhile is_space (rev s)) = ''OBJ'' @ rev (dropWhile is_space (rev rest))"
        by simp
      then show ?thesis by blast
    next
      assume "dropWhile is_space (rev s) = ''JBO''"
      then have "rev (dropWhile is_space (rev s)) = ''OBJ'' @ []" by simp
      then show ?thesis by blast
    qed
  qed
  ultimately show ?thesis
    by (auto simp: py_strip_def startswith_def)
qed

lemma restyle_lines_Some:
  "t \<noteq> [] \<Longrightarrow> join ''<br>'' (restyle_lines (Some t))
     = ''<b>'' @ t @ ''</b>'' @ ''<br>'' @ ''<br>'' @ join ''<br>'' legend_lines"
  by (simp add: restyle_lines_def join_Cons2 legend_lines_nonempty)

lemma restyle_lines_None: "join ''<br>'' (restyle_lines None) = join ''<br>'' legend_lines"
  by (simp add: restyle_lines_def)

lemma is_objective_text_nonempty: "is_objective a \<Longrightarrow> objective_text a \<noteq> []"
  by (auto simp: is_objective_def objective_text_def startswith_def split: pyval.splits)

lemma begins_is_objective: "atext a = PStr s \<Longrightarrow> startswith s ''OBJ'' \<Longrightarrow> is_objective a"
  by (simp add: is_objective_def strip_keeps_prefix)

text \<open>
  Claim C5, as amended. The restyle leaves exactly one annotation, the new block,
  and the traces as they were. With \<open>keep_obj\<close> true, the first annotation whose
  text, stripped of blanks at both ends, begins with \<open>OBJ\<close> gives the first line: the
  block is that stripped text in bold, an empty line and the legend. With
  \<open>keep_obj\<close> false, or with no such annotation, the block is the legend alone, in
  which \<open>OBJ\<close> does not occur. An annotation whose text begins with \<open>OBJ\<close> is such an
  annotation.
\<close>

theorem restyle_objective_block:
  "\<exists>txt. annotations (restyle_objective fig keep_obj) = [new_annotation txt]
     \<and> traces (restyle_objective fig keep_obj) = traces fig
     \<and> (\<forall>i < length (annotations fig).
           keep_obj \<and> is_objective (annotations fig ! i)
           \<and> (\<forall>j < i. \<not> is_objective (annotations fig ! j))
           \<longrightarrow> txt = objective_block (objective_text (annotations fig ! i)))
     \<and> (\<not> keep_obj \<or> (\<forall>a \<in> set (annotations fig). \<not> is_objective a)
           \<longrightarrow> txt = join ''<br>'' legend_lines \<and> \<not> contains ''OBJ'' txt)
     \<and> (\<forall>a \<in> set (annotations fig). \<forall>s. atext a = PStr s \<and> startswith s ''OBJ''
           \<longrightarrow> is_objective a \<and> objective_text a = py_strip s)"
proof -
  let ?anns = "annotations fig"
  let ?arg = "if keep_obj then obj_scan ?anns else None"
  let ?blk = "join ''<br>'' (restyle_lines ?arg)"
  have block: "annotations (restyle_objective fig keep_obj) = [new_annotation ?blk]"
    by (simp add: restyle_objective_def restyle_annotations_def)
  have tr: "traces (restyle_objective fig keep_obj) = traces fig"
    by (simp add: restyle_objective_def restyle_annotations_def)
  have kept: "?blk = objective_block (objective_text (?anns ! i))"
    if "i < length ?anns" "keep_obj" "is_objective (?anns ! i)"
      "\<forall>j < i. \<not> is_objective (?anns ! j)" for i
  proof -
    from that have "obj_scan ?anns = Some (objective_text (?anns ! i))"
      unfolding obj_scan_Some by blast
    moreover have "objective_text (?anns ! i) \<noteq> []"
      using that(3) by (rule is_objective_text_nonempty)
    ultimately show ?thesis
      using that(2) by (simp add: restyle_lines_Some objective_block_def)
  qed
  have dropped: "?blk = join ''<br>'' legend_lines \<and> \<not> contains ''OBJ'' ?blk"
    if "\<not> keep_obj \<or> (\<forall>a \<in> set ?anns. \<not> is_objective a)"
  proof -
    from that have "?arg = None"
      by (auto simp: obj_scan_None)
    then have "?blk = join ''<br>'' legend_lines"
      by (simp add: restyle_lines_None)
    then show ?thesis by (simp add: legend_no_obj)
  qed
  have begins: "is_objective a \<and> objective_text a = py_strip s"
    if "atext a = PStr s" "startswith s ''OBJ''" for a s
    using that by (simp add: begins_is_objective objective_text_def)
  show ?thesis
    using block tr kept dropped begins by (intro exI [of _ ?blk]) blast
qed

theorem restyle_objective_block_witness:
  "annotations (restyle_objective two_annotations True) = [new_annotation (objective_block ''OBJ 12.5'')]
   \<and> annotations (restyle_objective two_annotations False)
       = [new_annotation (join ''<br>'' legend_lines)]"
proof -
  have len: "length (annotations two_annotations) = 2"
    by (simp add: two_annotations_def)
  have a0: "\<not> is_objective (annotations two_annotations ! 0)"
    by (simp add: two_annotations_def is_objective_def new_annotation_def py_strip_def
        startswith_def is_space_def)
  have a1: "is_objective (annotations two_annotations ! 1)"
    by (simp add: two_annotations_def is_objective_def new_annotation_def py_strip_def
        startswith_def is_space_def)
  have t1: "objective_text (annotations two_annotations ! 1) = ''OBJ 12.5''"
    by (simp add: two_annotations_def objective_text_def new_annotation_def py_strip_def
        is_space_def)
  from restyle_objective_block [of two_annotations True] obtain blk where
    blk: "annotations (restyle_objective two_annotations True) = [new_annotation blk]"
    and kept: "\<forall>i < length (annotations two_annotations).
           True \<and> is_objective (annotations two_annotations ! i)
           \<and> (\<forall>j < i. \<not> is_objective (annotations two_annotations ! j))
           \<longrightarrow> blk = objective_block (objective_text (annotations two_annotations ! i))"
    by blast
  have "\<forall>j < (1::nat). \<not> is_objective (annotations two_annotations ! j)"
    using a0 by simp
  with kept len a1 have "blk = objective_block (objective_text (annotations two_annotations ! 1))"
    by (metis one_less_numeral_iff semiring_norm(76))
  with blk t1 have first: "annotations (restyle_objective two_annotations True)
      = [new_annotation (objective_block ''OBJ 12.5'')]"
    by simp
  from restyle_objective_block [of two_annotations False] obtain blk' where
    "annotations (restyle_objective two_annotations False) = [new_annotation blk']"
    and "blk' = join ''<br>'' legend_lines"
    by auto
  with first show ?thesis by simp
qed

text \<open>
  Claim C5 as the specification states it fails where it says the text is kept
  verbatim: the text \<open>OBJ 1\<close> followed by a blank begins with \<open>OBJ\<close>, and the new
  block holds \<open>OBJ 1\<close> without the blank; the text with the blank does not occur in
  it.
\<close>

theorem restyle_objective_not_verbatim:
  "startswith ''OBJ 1 '' ''OBJ''
   \<and> annotations (restyle_objective trailing_blank True) = [new_annotation (objective_block ''OBJ 1'')]
   \<and> \<not> contains ''OBJ 1 '' (objective_block ''OBJ 1'')"
proof -
  have "obj_scan (annotations trailing_blank) = Some ''OBJ 1''"
    by (simp add: trailing_blank_def new_annotation_def py_strip_def startswith_def is_space_def)
  then have "annotations (restyle_objective trailing_blank True)
      = [new_annotation (objective_block ''OBJ 1'')]"
    by (simp add: restyle_objective_def restyle_annotations_def restyle_lines_Some
        objective_block_def)
  moreover have "\<not> contains ''OBJ 1 '' (objective_block ''OBJ 1'')"
    by (simp add: objective_block_def legend_lines_def)
  ultimately show ?thesis by (simp add: startswith_def)
qed

subsection \<open>The trace tuning\<close>




lemma bump_raises:
  "bump rd v = Inl e \<longleftrightarrow> py_float rd v = Inl e \<and> e \<noteq> TypeError \<and> e \<noteq> ValueError"
  by (cases "py_float rd v") (auto simp: bump_def)



















text \<open>
  The size is converted under \<open>except (TypeError, ValueError)\<close> only: a size on
  which \<open>float\<close> raises another exception makes the pass raise it. So do the \<open>int\<close>
  \<open>2 ** 1024\<close> and a \<open>Fraction\<close> too large for a double, both with \<open>OverflowError\<close>.
\<close>

lemma tune_traces_uncaught:
  assumes "py_float rd v = Inl e" and "e \<noteq> TypeError" and "e \<noteq> ValueError"
    and "\<forall>vs. v \<noteq> PList vs \<and> v \<noteq> PTuple vs"
  shows "tune_traces rd \<lparr>traces = [\<lparr>mode = Some ''markers'', line_width = Some PNone,
        marker_size = Some v\<rparr>], annotations = []\<rparr> = Inl e"
proof -
  from assms(1-3) have "bump rd v = Inl e" by (simp add: bump_raises)
  with assms(4) have "bump_size rd v = Inl e"
    by (cases v) (simp_all add: bump_size_def)
  then show ?thesis
    by (simp add: tune_traces_def tune_trace_def tune_line_def tune_marker_def trace_mode_def)
qed

lemma double_overflows_example: "double_overflows (2 ^ 1024)"
proof -
  have "(0::int) \<le> 2 ^ 970" by (rule zero_le_power) simp
  moreover have "(0::int) \<le> 2 ^ 1024" by (rule zero_le_power) simp
  ultimately show ?thesis
    unfolding double_overflows_def by linarith
qed

lemma py_float_overflow_examples:
  "py_float rd (PInt (2 ^ 1024)) = Inl OverflowError"
  "py_float rd (PObj (Inl OverflowError)) = Inl OverflowError"
  using double_overflows_example by simp_all

subsection \<open>The orchestrators\<close>

text \<open>
  Claim C7. \<open>violation_plot\<close> does not use the layout engine: its result is the same
  whatever the tool and the readers of the tool's output are; and what it returns
  is what the figure builder returned for the network with the caller's coordinates
  mapped in, with no restyling, tuning or layout change after it.
\<close>

theorem violation_plot_raw:
  "violation_plot (env\<lparr>run_sfdp := t, int_of_str := i, float_of_str := f\<rparr>) c coords v
     = violation_plot env c coords v
   \<and> (violation_plot env c coords v = Inr fig \<longrightarrow>
        (\<exists>a a'. convert_case_to_internal_format env c = Inr a
           \<and> grbmap_coords_from_dict env (a\<lparr>graphical := Some [(''numfeatures'', 0)]\<rparr>) coords
               = Inr a'
           \<and> generate_violations_figure env a' v = Inr fig))
   \<and> (convert_case_to_internal_format env c = Inr a
       \<and> grbmap_coords_from_dict env (a\<lparr>graphical := Some [(''numfeatures'', 0)]\<rparr>) coords
           = Inr a'
        \<longrightarrow> violation_plot env c coords v = generate_violations_figure env a' v)"
  by (auto simp: violation_plot_def split: sum.splits)

text \<open>
  A builder's figure with a line of width 5 and an objective annotation comes back
  as it is.
\<close>

theorem violation_plot_raw_witness:
  "violation_plot ((demo_env triangle (Raises FileNotFoundError))
       \<lparr>generate_violations_figure := (\<lambda>a v. Inr lines_figure)\<rparr>) () [] () = Inr lines_figure"
proof -
  let ?env = "(demo_env triangle (Raises FileNotFoundError))
       \<lparr>generate_violations_figure := (\<lambda>a v. Inr lines_figure)\<rparr>"
  have "convert_case_to_internal_format ?env () = Inr triangle
       \<and> grbmap_coords_from_dict ?env (triangle\<lparr>graphical := Some [(''numfeatures'', 0)]\<rparr>) []
           = Inr (triangle\<lparr>graphical := Some [(''numfeatures'', 0)]\<rparr>)"
    by (simp add: demo_env_def)
  then show ?thesis
    using violation_plot_raw [where env = ?env and c = "()" and coords = "[]" and v = "()"
        and a = triangle and a' = "triangle\<lparr>graphical := Some [(''numfeatures'', 0)]\<rparr>"]
    by (simp add: demo_env_def)
qed

text \<open>
  Claim C1 says that \<open>solution_plot\<close>, called with \<open>coords=None\<close> while the layout
  tool is unavailable, raises nothing and returns a figure of the given width and
  height. The code does not get that far: the \<open>def\<close> statement of \<open>solution_plot\<close>
  puts the parameter \<open>solution\<close>, which has no default, after \<open>coords=None\<close>, so the
  parameter list breaks Python's rule, the module is refused with \<open>SyntaxError\<close>, and
  no call of \<open>solution_plot\<close> returns a figure. (The test \<open>if coords = None:\<close> in its
  body is refused in the same way.)
\<close>

theorem solution_plot_def_refused: "\<not> defaults_last solution_plot_params"
  by (simp add: solution_plot_params_def)

end
